theory Spec2Isabelle
  imports Main
begin

section \<open>Status model (constants.ts)\<close>

text \<open>
  Status codes travel as strings. The declared type \<^verbatim>\<open>WorkflowStatus\<close> lists five of
  them, but the codes come out of response documents and \<^verbatim>\<open>getStatusName\<close> has a fallback
  for codes it does not know, so the model keeps them as strings.

  \<^verbatim>\<open>STATUS_NAMES\<close> is an object literal. Reading \<^verbatim>\<open>STATUS_NAMES[statusCode]\<close> is a JavaScript
  property read: it finds the object's own properties first and then the properties every
  object literal inherits from \<^verbatim>\<open>Object.prototype\<close>. Those inherited values are functions
  (and, under \<^verbatim>\<open>__proto__\<close>, the prototype object itself), so the value read is not always
  a string; \<open>js_value\<close> holds the three kinds of value the read can produce.
\<close>

datatype js_value = JSString string | JSFunction string | JSObject

definition COMPLETED :: string where "COMPLETED = ''C''"

definition TERMINAL_STATUSES :: "string list" where
  "TERMINAL_STATUSES = [''C'', ''F'', ''X'']"

definition STATUS_NAMES :: "(string \<times> string) list" where
  "STATUS_NAMES =
     [(''P'', ''pending''), (''R'', ''running''), (''C'', ''completed''),
      (''F'', ''failed''), (''X'', ''cancelled'')]"

text \<open>
  The properties of \<^verbatim>\<open>Object.prototype\<close> (ECMAScript, with the legacy accessors of its
  Annex B that Node.js and the browsers implement). \<open>JSFunction n\<close> is the built-in function
  whose own name is \<open>n\<close>.
\<close>

definition Object_prototype :: "(string \<times> js_value) list" where
  "Object_prototype =
     [(''constructor'', JSFunction ''Object''),
      (''hasOwnProperty'', JSFunction ''hasOwnProperty''),
      (''isPrototypeOf'', JSFunction ''isPrototypeOf''),
      (''propertyIsEnumerable'', JSFunction ''propertyIsEnumerable''),
      (''toLocaleString'', JSFunction ''toLocaleString''),
      (''toString'', JSFunction ''toString''),
      (''valueOf'', JSFunction ''valueOf''),
      (''__defineGetter__'', JSFunction ''__defineGetter__''),
      (''__defineSetter__'', JSFunction ''__defineSetter__''),
      (''__lookupGetter__'', JSFunction ''__lookupGetter__''),
      (''__lookupSetter__'', JSFunction ''__lookupSetter__''),
      (''__proto__'', JSObject)]"

text \<open>\<^verbatim>\<open>STATUS_NAMES[statusCode]\<close>; \<open>None\<close> is \<^verbatim>\<open>undefined\<close>.\<close>

definition STATUS_NAMES_get :: "string \<Rightarrow> js_value option" where
  "STATUS_NAMES_get statusCode =
     (case map_of STATUS_NAMES statusCode of
        Some name \<Rightarrow> Some (JSString name)
      | None \<Rightarrow> map_of Object_prototype statusCode)"

text \<open>What \<^verbatim>\<open>||\<close> tests: the empty string is falsy, functions and objects are truthy.\<close>

fun truthy :: "js_value \<Rightarrow> bool" where
  "truthy (JSString s) = (s \<noteq> [])"
| "truthy (JSFunction n) = True"
| "truthy JSObject = True"

text \<open>\<^verbatim>\<open>return this.STATUS_NAMES[statusCode] || statusCode;\<close>\<close>

definition getStatusName :: "string \<Rightarrow> js_value" where
  "getStatusName statusCode =
     (case STATUS_NAMES_get statusCode of
        Some v \<Rightarrow> if truthy v then v else JSString statusCode
      | None \<Rightarrow> JSString statusCode)"

text \<open>
  A value inside a template literal \<^verbatim>\<open>`...${v}...`\<close>: a string stands for itself, a built-in
  function prints as Node.js prints it, a plain object as \<^verbatim>\<open>[object Object]\<close>.
\<close>

fun template :: "js_value \<Rightarrow> string" where
  "template (JSString s) = s"
| "template (JSFunction n) = ''function '' @ n @ ''() { [native code] }''"
| "template JSObject = ''[object Object]''"

section \<open>Documents (types.ts)\<close>

text \<open>
  JSON data as it arrives and leaves. An object is the list of its entries in the order
  \<^verbatim>\<open>for ... in\<close> enumerates them.
\<close>

datatype json =
    JNull
  | JBool bool
  | JNum int
  | JStr string
  | JArr "json list"
  | JObj "(string \<times> json) list"

type_synonym payload = "(string \<times> json) list"

record TalentRunOptions =
  args :: "json option"
  files :: "json option"
  useStates :: "string list option"
  preserveState :: "string option"
  browserSessionId :: "string option"

text \<open>
  \<^verbatim>\<open>WorkflowRunOptions\<close> has the fields of \<^verbatim>\<open>TalentRunOptions\<close> and three more, and
  \<^verbatim>\<open>RunWorkflowAndWaitOptions extends WorkflowRunOptions\<close>; the records extend each other the
  same way.
\<close>

record WorkflowRunOptions = TalentRunOptions +
  noIntelligence :: "bool option"
  recordSession :: "bool option"
  skipGotoUrlInstruction :: "bool option"

record AgentExecution =
  exec_status :: string
  instructionOrder :: int
  instruction :: string
  exec_result :: "json option"
  exec_resultFormat :: "string option"
  exec_errorMessage :: "string option"

record WorkflowRunResult =
  workflowId :: string
  runId :: string
  status :: string
  startedAt :: "string option"
  completedAt :: "string option"
  message :: "string option"
  executions :: "AgentExecution list option"
  result :: "json option"
  resultFormat :: "string option"
  errorMessage :: "string option"

record WorkflowRunSubmitted =
  submitted_workflowId :: string
  submitted_runId :: string
  submitted_status :: string

record BrowserSession =
  uuid :: string
  session_provider :: string
  session_status :: string
  isBusy :: bool
  userManaged :: bool
  currentRunType :: "string option"
  currentRunId :: "string option"
  createdAt :: string
  session_startedAt :: "string option"
  lastActivityAt :: "string option"
  session_proxyCountry :: "string option"
  session_proxyCity :: "string option"

record BrowserSessionCreateOptions =
  provider :: "string option"
  useProxy :: "bool option"
  proxyCountry :: "string option"
  proxyCity :: "string option"
  session_useStates :: "string list option"

text \<open>
  An option that is left out is \<open>None\<close>. Durations and clock readings are counted in
  whole milliseconds.
\<close>

record WaitUntilStateOptions =
  allInstructionsExecuted :: "bool option"
  minWaitTime :: "int option"
  pollingInterval :: "int option"
  timeout :: "int option"

text \<open>
  What a function of the client throws: its own exception class (errors.ts), or whatever
  else a caller's callback throws.
\<close>

datatype exception = WitriumClientException string | Thrown string

text \<open>
  \<^verbatim>\<open>onProgress\<close> is called synchronously and its return value is dropped, so it cannot
  complete any operation of the client before the loop goes on: it is an observer of the
  snapshot, which may throw (\<open>Some\<close>) or return (\<open>None\<close>).
\<close>

record RunWorkflowAndWaitOptions = WorkflowRunOptions +
  run_pollingInterval :: "int option"
  run_timeout :: "int option"
  returnIntermediateResults :: "bool option"
  onProgress :: "(WorkflowRunResult \<Rightarrow> exception option) option"

text \<open>\<^verbatim>\<open>WorkflowRunResult | WorkflowRunResult[]\<close>, the result of \<^verbatim>\<open>runWorkflowAndWait\<close>.\<close>

datatype run_output = Final WorkflowRunResult | Intermediate "WorkflowRunResult list"

section \<open>The remote service, the clock and the client's state\<close>

text \<open>
  A failed request, as \<^verbatim>\<open>_extractErrorDetail\<close> and the \<^verbatim>\<open>catch\<close> blocks see it: the detail
  extracted from the error and the status code as it prints.
\<close>

type_synonym failure = "string \<times> string"

text \<open>
  Everything the client does that can be observed from outside, in order: each exchange
  with the service (the request and the reply it got, a response document at its declared
  type after \<^verbatim>\<open>_transformKeysToCamelCase\<close>; documents the client only hands back are kept
  as \<open>json\<close>), each timer it waited for, each call of \<^verbatim>\<open>onProgress\<close>.
\<close>

datatype event =
    POST_run string payload "failure + WorkflowRunSubmitted"
  | GET_results string "failure + WorkflowRunResult"
  | POST_cancel string "failure + json"
  | POST_talent string payload "failure + json"
  | POST_session payload "failure + BrowserSession"
  | GET_sessions "failure + json"
  | GET_session string "failure + BrowserSession"
  | DELETE_session string bool "failure + json"
  | Sleep int
  | Progress WorkflowRunResult

text \<open>
  The world outside the client. The service answers a request from all that has happened
  so far; a request takes \<open>latency\<close> milliseconds and a timer fires \<open>overshoot\<close> milliseconds
  late (both may be zero). \<open>show_seconds\<close> is how the runtime prints the floating-point
  quotient \<^verbatim>\<open>timeout / 1000\<close>.
\<close>

record env =
  run_reply :: "event list \<Rightarrow> string \<Rightarrow> payload \<Rightarrow> failure + WorkflowRunSubmitted"
  results_reply :: "event list \<Rightarrow> string \<Rightarrow> failure + WorkflowRunResult"
  cancel_reply :: "event list \<Rightarrow> string \<Rightarrow> failure + json"
  talent_reply :: "event list \<Rightarrow> string \<Rightarrow> payload \<Rightarrow> failure + json"
  create_reply :: "event list \<Rightarrow> payload \<Rightarrow> failure + BrowserSession"
  list_reply :: "event list \<Rightarrow> failure + json"
  session_reply :: "event list \<Rightarrow> string \<Rightarrow> failure + BrowserSession"
  close_reply :: "event list \<Rightarrow> string \<Rightarrow> bool \<Rightarrow> failure + json"
  latency :: "event list \<Rightarrow> nat"
  overshoot :: "event list \<Rightarrow> nat"
  show_seconds :: "int \<Rightarrow> string"

text \<open>
  The client's one mutable field, \<^verbatim>\<open>_activeSessionId\<close>, together with the clock
  \<^verbatim>\<open>Date.now()\<close> reads (milliseconds) and the events so far.
\<close>

record state =
  activeSessionId :: "string option"
  clock :: int
  trace :: "event list"

text \<open>A client just constructed: \<^verbatim>\<open>private _activeSessionId: string | null = null\<close>.\<close>

definition constructor :: "int \<Rightarrow> event list \<Rightarrow> state" where
  "constructor t h = \<lparr>activeSessionId = None, clock = t, trace = h\<rparr>"

definition sessionId :: "state \<Rightarrow> string option" where
  "sessionId s = activeSessionId s"

definition Date_now :: "state \<Rightarrow> int" where
  "Date_now s = clock s"

text \<open>One exchange with the service: time passes and the exchange is recorded.\<close>

definition exchange :: "env \<Rightarrow> event \<Rightarrow> state \<Rightarrow> state" where
  "exchange e ev s =
     s\<lparr>clock := clock s + int (latency e (trace s)), trace := trace s @ [ev]\<rparr>"

text \<open>
  The least time a timer set for \<open>d\<close> milliseconds takes. \<^verbatim>\<open>setTimeout\<close> keeps its delay
  as a signed 32-bit integer: a delay that is negative or does not fit fires (next to)
  at once. Node.js waits 1 ms then, a browser up to the wrapped value; what a runtime
  waits beyond this least time is part of \<open>overshoot\<close>.
\<close>

definition timer_delay :: "int \<Rightarrow> int" where
  "timer_delay d = (if 0 \<le> d \<and> d \<le> 2147483647 then d else 0)"

text \<open>\<^verbatim>\<open>await new Promise((resolve) => setTimeout(resolve, d))\<close>\<close>

definition sleep :: "env \<Rightarrow> int \<Rightarrow> state \<Rightarrow> state" where
  "sleep e d s =
     s\<lparr>clock := clock s + timer_delay d + int (overshoot e (trace s)),
       trace := trace s @ [Sleep d]\<rparr>"

text \<open>The \<^verbatim>\<open>catch\<close> block every request shares.\<close>

definition request_failed :: "string \<Rightarrow> failure \<Rightarrow> exception" where
  "request_failed what f =
     WitriumClientException (what @ '': '' @ fst f @ '' (Status code: '' @ snd f @ '')'')"

definition settle :: "string \<Rightarrow> failure + 'a \<Rightarrow> exception + 'a" where
  "settle what reply = (case reply of Inl f \<Rightarrow> Inl (request_failed what f) | Inr d \<Rightarrow> Inr d)"

text \<open>\<^verbatim>\<open>a ?? b\<close>\<close>

definition nullish :: "'a option \<Rightarrow> 'a \<Rightarrow> 'a" where
  "nullish a b = (case a of Some v \<Rightarrow> v | None \<Rightarrow> b)"

section \<open>Requests (client.ts)\<close>

text \<open>\<^verbatim>\<open>if (v !== undefined) payload.key = v;\<close>\<close>

definition field :: "string \<Rightarrow> ('a \<Rightarrow> json) \<Rightarrow> 'a option \<Rightarrow> payload" where
  "field key enc v = (case v of None \<Rightarrow> [] | Some x \<Rightarrow> [(key, enc x)])"

definition strings :: "string list \<Rightarrow> json" where
  "strings xs = JArr (map JStr xs)"

text \<open>
  \<^verbatim>\<open>const browserSessionId = options.browserSessionId ?? this._activeSessionId;\<close>
\<close>

definition injected_session :: "string option \<Rightarrow> string option \<Rightarrow> string option" where
  "injected_session explicit active = (case explicit of Some b \<Rightarrow> Some b | None \<Rightarrow> active)"

definition workflow_payload :: "WorkflowRunOptions \<Rightarrow> string option \<Rightarrow> payload" where
  "workflow_payload options active =
     field ''args'' id (args options) @
     field ''files'' id (files options) @
     field ''use_states'' strings (useStates options) @
     field ''preserve_state'' JStr (preserveState options) @
     field ''no_intelligence'' JBool (noIntelligence options) @
     field ''record_session'' JBool (recordSession options) @
     field ''browser_session_id'' JStr (injected_session (browserSessionId options) active) @
     field ''skip_goto_url_instruction'' JBool (skipGotoUrlInstruction options)"

definition talent_payload :: "TalentRunOptions \<Rightarrow> string option \<Rightarrow> payload" where
  "talent_payload options active =
     field ''args'' id (args options) @
     field ''files'' id (files options) @
     field ''use_states'' strings (useStates options) @
     field ''preserve_state'' JStr (preserveState options) @
     field ''browser_session_id'' JStr (injected_session (browserSessionId options) active)"

definition session_payload :: "BrowserSessionCreateOptions \<Rightarrow> payload" where
  "session_payload options =
     field ''provider'' JStr (provider options) @
     field ''use_proxy'' JBool (useProxy options) @
     field ''proxy_country'' JStr (proxyCountry options) @
     field ''proxy_city'' JStr (proxyCity options) @
     field ''use_states'' strings (session_useStates options)"

definition runWorkflow ::
  "env \<Rightarrow> string \<Rightarrow> WorkflowRunOptions \<Rightarrow> state \<Rightarrow> (exception + WorkflowRunSubmitted) \<times> state" where
  "runWorkflow e workflow options s =
     (let payload = workflow_payload options (activeSessionId s);
          reply = run_reply e (trace s) workflow payload
      in (settle ''Error running workflow'' reply, exchange e (POST_run workflow payload reply) s))"

definition getWorkflowResults ::
  "env \<Rightarrow> string \<Rightarrow> state \<Rightarrow> (exception + WorkflowRunResult) \<times> state" where
  "getWorkflowResults e run s =
     (let reply = results_reply e (trace s) run
      in (settle ''Error getting workflow results'' reply, exchange e (GET_results run reply) s))"

definition cancelRun :: "env \<Rightarrow> string \<Rightarrow> state \<Rightarrow> (exception + json) \<times> state" where
  "cancelRun e run s =
     (let reply = cancel_reply e (trace s) run
      in (settle ''Error cancelling workflow run'' reply, exchange e (POST_cancel run reply) s))"

definition runTalent ::
  "env \<Rightarrow> string \<Rightarrow> TalentRunOptions \<Rightarrow> state \<Rightarrow> (exception + json) \<times> state" where
  "runTalent e talentId options s =
     (let payload = talent_payload options (activeSessionId s);
          reply = talent_reply e (trace s) talentId payload
      in (settle ''Error running talent'' reply, exchange e (POST_talent talentId payload reply) s))"

definition createBrowserSession ::
  "env \<Rightarrow> BrowserSessionCreateOptions \<Rightarrow> state \<Rightarrow> (exception + BrowserSession) \<times> state" where
  "createBrowserSession e options s =
     (let payload = session_payload options;
          reply = create_reply e (trace s) payload
      in (settle ''Error creating browser session'' reply, exchange e (POST_session payload reply) s))"

definition listBrowserSessions :: "env \<Rightarrow> state \<Rightarrow> (exception + json) \<times> state" where
  "listBrowserSessions e s =
     (let reply = list_reply e (trace s)
      in (settle ''Error listing browser sessions'' reply, exchange e (GET_sessions reply) s))"

definition getBrowserSession ::
  "env \<Rightarrow> string \<Rightarrow> state \<Rightarrow> (exception + BrowserSession) \<times> state" where
  "getBrowserSession e sessionUuid s =
     (let reply = session_reply e (trace s) sessionUuid
      in (settle ''Error getting browser session'' reply, exchange e (GET_session sessionUuid reply) s))"

definition closeBrowserSession ::
  "env \<Rightarrow> string \<Rightarrow> bool \<Rightarrow> state \<Rightarrow> (exception + json) \<times> state" where
  "closeBrowserSession e sessionUuid force s =
     (let reply = close_reply e (trace s) sessionUuid force
      in (settle ''Error closing browser session'' reply,
          exchange e (DELETE_session sessionUuid force reply) s))"

section \<open>Polling (client.ts)\<close>

definition AgentExecutionStatus_COMPLETED :: string where
  "AgentExecutionStatus_COMPLETED = ''C''"

definition checkAllExecutionsCompleted :: "WorkflowRunResult \<Rightarrow> bool" where
  "checkAllExecutionsCompleted results =
     (case executions results of
        None \<Rightarrow> False
      | Some xs \<Rightarrow>
          if length xs = 0 then False
          else exec_status (xs ! (length xs - 1)) = AgentExecutionStatus_COMPLETED)"

definition quoted :: "string \<Rightarrow> string" where
  "quoted s = [CHR 0x27] @ s @ [CHR 0x27]"

definition terminal_mismatch :: "string \<Rightarrow> string \<Rightarrow> exception" where
  "terminal_mismatch current target =
     (let currentStatusName = getStatusName current;
          targetStatusName = getStatusName target
      in WitriumClientException
           (''Workflow run reached terminal status '' @ quoted (template currentStatusName) @
            '' before reaching target status '' @ quoted (template targetStatusName)))"

definition wait_timed_out :: "env \<Rightarrow> string \<Rightarrow> bool \<Rightarrow> int \<Rightarrow> exception" where
  "wait_timed_out e target allExecuted tmo =
     (let targetStatusName = getStatusName target;
          conditionMsg = ''status '' @ quoted (template targetStatusName);
          conditionMsg = (if allExecuted then conditionMsg @ '' and all instructions executed''
                          else conditionMsg)
      in WitriumClientException
           (''Workflow run did not reach '' @ conditionMsg @ '' within '' @
            show_seconds e tmo @ '' seconds''))"

definition run_timed_out :: "env \<Rightarrow> int \<Rightarrow> exception" where
  "run_timed_out e tmo =
     WitriumClientException
       (''Workflow execution timed out after '' @ show_seconds e tmo @ '' seconds'')"

text \<open>
  The \<^verbatim>\<open>while\<close> loop of \<^verbatim>\<open>waitUntilState\<close>. With a polling interval of zero and a
  service that answers at once the loop need not end, so it runs on fuel, one unit for
  each pass through the body; the outcome \<open>None\<close> says that the loop test held once more
  when the fuel was used up: the call is still polling, in the state it has reached by
  then.
\<close>

fun waitUntilState_loop ::
  "env \<Rightarrow> nat \<Rightarrow> string \<Rightarrow> string \<Rightarrow> bool \<Rightarrow> int \<Rightarrow> int \<Rightarrow> int \<Rightarrow> state \<Rightarrow>
   (exception + WorkflowRunResult) option \<times> state" where
  "waitUntilState_loop e 0 run target allExecuted interval tmo startTime s =
     (if Date_now s - startTime < tmo then (None, s)
      else (Some (Inl (wait_timed_out e target allExecuted tmo)), s))"
| "waitUntilState_loop e (Suc fuel) run target allExecuted interval tmo startTime s =
     (if Date_now s - startTime < tmo then
        (case getWorkflowResults e run s of
           (Inl err, s1) \<Rightarrow> (Some (Inl err), s1)
         | (Inr results, s1) \<Rightarrow>
             (let statusReached = (status results = target);
                  allExecutionsDone = (\<not> allExecuted \<or> checkAllExecutionsCompleted results)
              in if statusReached \<and> allExecutionsDone then (Some (Inr results), s1)
                 else if status results \<in> set TERMINAL_STATUSES \<and> status results \<noteq> target
                 then (Some (Inl (terminal_mismatch (status results) target)), s1)
                 else waitUntilState_loop e fuel run target allExecuted interval tmo startTime
                        (sleep e interval s1)))
      else (Some (Inl (wait_timed_out e target allExecuted tmo)), s))"

text \<open>
  \<^verbatim>\<open>if (minWaitTime > 0) { await new Promise((resolve) => setTimeout(resolve, minWaitTime)); }\<close>
\<close>

definition minWait_elapsed :: "env \<Rightarrow> WaitUntilStateOptions \<Rightarrow> state \<Rightarrow> state" where
  "minWait_elapsed e options s =
     (let minWait = nullish (minWaitTime options) 0
      in if minWait > 0 then sleep e minWait s else s)"

definition waitUntilState ::
  "env \<Rightarrow> nat \<Rightarrow> string \<Rightarrow> string \<Rightarrow> WaitUntilStateOptions \<Rightarrow> state \<Rightarrow>
   (exception + WorkflowRunResult) option \<times> state" where
  "waitUntilState e fuel run targetStatus options s =
     (let allExecuted = nullish (allInstructionsExecuted options) False;
          interval = nullish (pollingInterval options) 2000;
          tmo = nullish (timeout options) 60000;
          s0 = minWait_elapsed e options s;
          startTime = Date_now s0
      in waitUntilState_loop e fuel run targetStatus allExecuted interval tmo startTime s0)"

text \<open>The \<^verbatim>\<open>while\<close> loop of \<^verbatim>\<open>runWorkflowAndWait\<close>, on fuel in the same way.\<close>

fun runWorkflowAndWait_loop ::
  "env \<Rightarrow> nat \<Rightarrow> string \<Rightarrow> bool \<Rightarrow> (WorkflowRunResult \<Rightarrow> exception option) \<Rightarrow> int \<Rightarrow> int \<Rightarrow> int \<Rightarrow>
   WorkflowRunResult list \<Rightarrow> state \<Rightarrow> (exception + run_output) option \<times> state" where
  "runWorkflowAndWait_loop e 0 run intermediate progress interval tmo startTime acc s =
     (if Date_now s - startTime < tmo then (None, s)
      else (Some (Inl (run_timed_out e tmo)), s))"
| "runWorkflowAndWait_loop e (Suc fuel) run intermediate progress interval tmo startTime acc s =
     (if Date_now s - startTime < tmo then
        (case getWorkflowResults e run s of
           (Inl err, s1) \<Rightarrow> (Some (Inl err), s1)
         | (Inr results, s1) \<Rightarrow>
             (let intermediateResults = (if intermediate then acc @ [results] else acc);
                  s2 = s1\<lparr>trace := trace s1 @ [Progress results]\<rparr>
              in case progress results of
                   Some err \<Rightarrow> (Some (Inl err), s2)
                 | None \<Rightarrow>
                     if status results \<in> set TERMINAL_STATUSES
                     then (Some (Inr (if intermediate then Intermediate intermediateResults
                                      else Final results)), s2)
                     else runWorkflowAndWait_loop e fuel run intermediate progress interval tmo
                            startTime intermediateResults (sleep e interval s2)))
      else (Some (Inl (run_timed_out e tmo)), s))"

definition runWorkflowAndWait ::
  "env \<Rightarrow> nat \<Rightarrow> string \<Rightarrow> RunWorkflowAndWaitOptions \<Rightarrow> state \<Rightarrow>
   (exception + run_output) option \<times> state" where
  "runWorkflowAndWait e fuel workflow options s =
     (let tmo = nullish (run_timeout options) 300000;
          interval = nullish (run_pollingInterval options) 5000;
          intermediate = nullish (returnIntermediateResults options) False;
          progress = nullish (onProgress options) (\<lambda>results. None)
      in case runWorkflow e workflow
                \<lparr>args = args options, files = files options, useStates = useStates options,
                 preserveState = preserveState options,
                 browserSessionId = browserSessionId options,
                 noIntelligence = noIntelligence options,
                 recordSession = recordSession options,
                 skipGotoUrlInstruction = skipGotoUrlInstruction options\<rparr> s of
           (Inl err, s1) \<Rightarrow> (Some (Inl err), s1)
         | (Inr runResponse, s1) \<Rightarrow>
             runWorkflowAndWait_loop e fuel (submitted_runId runResponse) intermediate progress
               interval tmo (Date_now s1) [] s1)"

section \<open>Session scope (client.ts)\<close>

text \<open>
  The callback is awaited, so it may run any operations of the client before it settles:
  it takes the session id and the state and gives its outcome (a value or what it threw)
  and the state it leaves, or \<open>None\<close> when it never settles. Then \<^verbatim>\<open>withBrowserSession\<close>
  never settles either, and its \<^verbatim>\<open>finally\<close> block is not reached.
\<close>

definition withBrowserSession ::
  "env \<Rightarrow> (string \<Rightarrow> state \<Rightarrow> ((exception + 'a) \<times> state) option) \<Rightarrow> BrowserSessionCreateOptions \<Rightarrow>
   state \<Rightarrow> ((exception + 'a) \<times> state) option" where
  "withBrowserSession e callback options s =
     (case createBrowserSession e options s of
        (Inl err, s1) \<Rightarrow> Some (Inl err, s1)
      | (Inr session, s1) \<Rightarrow>
          (let previousSessionId = activeSessionId s1;
               s2 = s1\<lparr>activeSessionId := Some (uuid session)\<rparr>
           in case callback (uuid session) s2 of
                None \<Rightarrow> None
              | Some (outcome, s3) \<Rightarrow>
                  (let s4 = s3\<lparr>activeSessionId := previousSessionId\<rparr>;
                       (closed, s5) = closeBrowserSession e (uuid session) True s4
                   in Some (outcome, s5))))"

section \<open>Field names at the wire (client.ts)\<close>















section \<open>Sequences of calls\<close>

text \<open>
  The public operations other than \<^verbatim>\<open>withBrowserSession\<close>, as calls with their arguments,
  and the state a call leaves, whatever its outcome.
\<close>

datatype call =
    Call_runWorkflow string WorkflowRunOptions
  | Call_getWorkflowResults string
  | Call_runWorkflowAndWait string RunWorkflowAndWaitOptions
  | Call_waitUntilState string string WaitUntilStateOptions
  | Call_cancelRun string
  | Call_runTalent string TalentRunOptions
  | Call_createBrowserSession BrowserSessionCreateOptions
  | Call_listBrowserSessions
  | Call_getBrowserSession string
  | Call_closeBrowserSession string bool

fun invoke :: "env \<Rightarrow> nat \<Rightarrow> call \<Rightarrow> state \<Rightarrow> state" where
  "invoke e fuel (Call_runWorkflow workflow options) s = snd (runWorkflow e workflow options s)"
| "invoke e fuel (Call_getWorkflowResults run) s = snd (getWorkflowResults e run s)"
| "invoke e fuel (Call_runWorkflowAndWait workflow options) s =
     snd (runWorkflowAndWait e fuel workflow options s)"
| "invoke e fuel (Call_waitUntilState run target options) s =
     snd (waitUntilState e fuel run target options s)"
| "invoke e fuel (Call_cancelRun run) s = snd (cancelRun e run s)"
| "invoke e fuel (Call_runTalent talent options) s = snd (runTalent e talent options s)"
| "invoke e fuel (Call_createBrowserSession options) s = snd (createBrowserSession e options s)"
| "invoke e fuel (Call_listBrowserSessions) s = snd (listBrowserSessions e s)"
| "invoke e fuel (Call_getBrowserSession sessionUuid) s = snd (getBrowserSession e sessionUuid s)"
| "invoke e fuel (Call_closeBrowserSession sessionUuid force) s =
     snd (closeBrowserSession e sessionUuid force s)"

text \<open>The events a call added to the trace it started from.\<close>

definition events_since :: "state \<Rightarrow> state \<Rightarrow> event list" where
  "events_since s s' = drop (length (trace s)) (trace s')"

section \<open>Reading traces, and a scripted service for examples\<close>

text \<open>The result fetches among some events: how many, and the snapshots they brought.\<close>

fun is_fetch :: "event \<Rightarrow> bool" where
  "is_fetch (GET_results run reply) = True"
| "is_fetch ev = False"

definition fetches :: "event list \<Rightarrow> nat" where
  "fetches evs = length (filter is_fetch evs)"

fun fetched :: "event list \<Rightarrow> WorkflowRunResult list" where
  "fetched [] = []"
| "fetched (GET_results run (Inr results) # evs) = results # fetched evs"
| "fetched (ev # evs) = fetched evs"

text \<open>
  The time some events take when they follow the history \<open>h\<close>, as \<open>exchange\<close> and
  \<open>sleep\<close> move the clock: a request by its latency, a timer by its delay and its
  overshoot, a call of \<^verbatim>\<open>onProgress\<close> by nothing.
\<close>

fun duration :: "env \<Rightarrow> event list \<Rightarrow> event \<Rightarrow> int" where
  "duration e h (Sleep d) = timer_delay d + int (overshoot e h)"
| "duration e h (Progress results) = 0"
| "duration e h ev = int (latency e h)"

fun elapse :: "env \<Rightarrow> event list \<Rightarrow> event list \<Rightarrow> int" where
  "elapse e h [] = 0"
| "elapse e h (ev # evs) = duration e h ev + elapse e (h @ [ev]) evs"

text \<open>The snapshots \<^verbatim>\<open>onProgress\<close> was called with.\<close>

fun progressed :: "event list \<Rightarrow> WorkflowRunResult list" where
  "progressed [] = []"
| "progressed (Progress results # evs) = results # progressed evs"
| "progressed (ev # evs) = progressed evs"

fun is_create :: "event \<Rightarrow> bool" where
  "is_create (POST_session p reply) = True"
| "is_create ev = False"

definition snapshot :: "string \<Rightarrow> AgentExecution list option \<Rightarrow> WorkflowRunResult" where
  "snapshot st ex =
     \<lparr>workflowId = ''w1'', runId = ''r1'', status = st, startedAt = None, completedAt = None,
      message = None, executions = ex, result = None, resultFormat = None,
      errorMessage = None\<rparr>"

definition execution :: "string \<Rightarrow> AgentExecution" where
  "execution st =
     \<lparr>exec_status = st, instructionOrder = 1, instruction = ''open the page'',
      exec_result = None, exec_resultFormat = None, exec_errorMessage = None\<rparr>"

definition session :: "string \<Rightarrow> BrowserSession" where
  "session u =
     \<lparr>uuid = u, session_provider = ''cloud'', session_status = ''active'', isBusy = False,
      userManaged = False, currentRunType = None, currentRunId = None, createdAt = ''now'',
      session_startedAt = None, lastActivityAt = None, session_proxyCountry = None,
      session_proxyCity = None\<rparr>"

text \<open>
  A service for the examples. It accepts every submission as run \<^verbatim>\<open>r1\<close>, answers the
  fetches with the snapshots of a script in turn (staying on the last one), opens sessions
  \<^verbatim>\<open>s\<close>, \<^verbatim>\<open>ss\<close>, ... and refuses everything else, closing a session included. A request
  takes 10 ms, timers are exact, and \<open>shown\<close> is what the runtime prints for the seconds.
\<close>

definition scripted :: "WorkflowRunResult list \<Rightarrow> string \<Rightarrow> env" where
  "scripted script shown =
     \<lparr>run_reply = (\<lambda>h w p. Inr \<lparr>submitted_workflowId = w, submitted_runId = ''r1'',
                                 submitted_status = ''P''\<rparr>),
      results_reply = (\<lambda>h r. if script = [] then Inl (''Run not found'', ''404'')
                              else Inr (script ! min (fetches h) (length script - 1))),
      cancel_reply = (\<lambda>h r. Inl (''Refused'', ''500'')),
      talent_reply = (\<lambda>h t p. Inl (''Refused'', ''500'')),
      create_reply = (\<lambda>h p. Inr (session (replicate (Suc (length (filter is_create h))) CHR ''s''))),
      list_reply = (\<lambda>h. Inl (''Refused'', ''500'')),
      session_reply = (\<lambda>h u. Inl (''Refused'', ''500'')),
      close_reply = (\<lambda>h u f. Inl (''Session is busy'', ''409'')),
      latency = (\<lambda>h. 10),
      overshoot = (\<lambda>h. 0),
      show_seconds = (\<lambda>ms. shown)\<rparr>"

section \<open>The status model\<close>

lemma getStatusName_known:
  "getStatusName ''P'' = JSString ''pending''"
  "getStatusName ''R'' = JSString ''running''"
  "getStatusName ''C'' = JSString ''completed''"
  "getStatusName ''F'' = JSString ''failed''"
  "getStatusName ''X'' = JSString ''cancelled''"
  by (simp_all add: getStatusName_def STATUS_NAMES_get_def STATUS_NAMES_def)





section \<open>Exchanges, timers and the loop of \<^verbatim>\<open>waitUntilState\<close>\<close>

lemma trace_exchange [simp]: "trace (exchange e ev s) = trace s @ [ev]"
  by (simp add: exchange_def)

lemma active_exchange [simp]: "activeSessionId (exchange e ev s) = activeSessionId s"
  by (simp add: exchange_def)

lemma clock_exchange: "clock s \<le> clock (exchange e ev s)"
  by (simp add: exchange_def)

lemma trace_sleep [simp]: "trace (sleep e d s) = trace s @ [Sleep d]"
  by (simp add: sleep_def)

lemma active_sleep [simp]: "activeSessionId (sleep e d s) = activeSessionId s"
  by (simp add: sleep_def)

lemma clock_sleep: "0 \<le> d \<Longrightarrow> d \<le> 2147483647 \<Longrightarrow> clock s + d \<le> clock (sleep e d s)"
  by (simp add: sleep_def timer_delay_def)

lemma getWorkflowResults_eq:
  "getWorkflowResults e run s =
     (settle ''Error getting workflow results'' (results_reply e (trace s) run),
      exchange e (GET_results run (results_reply e (trace s) run)) s)"
  by (simp add: getWorkflowResults_def Let_def)

lemma split_Cons:
  "pre @ x # post = a # rest \<Longrightarrow>
     (pre = [] \<and> x = a \<and> post = rest) \<or> (\<exists>pre'. pre = a # pre' \<and> pre' @ x # post = rest)"
  by (cases pre) auto

text \<open>The ways one call of the loop can go, as an induction rule.\<close>

lemma waitUntilState_loop_induct
  [consumes 1, case_names still_polling timed_out fetch_failed reached mismatch polled]:
  assumes run: "waitUntilState_loop e fuel run target a i t st s = (out, s')"
    and still_polling: "\<And>s. Date_now s - st < t \<Longrightarrow> P 0 s None s"
    and timed_out: "\<And>fuel s. \<not> Date_now s - st < t \<Longrightarrow>
           P fuel s (Some (Inl (wait_timed_out e target a t))) s"
    and fetch_failed: "\<And>fuel s f. Date_now s - st < t \<Longrightarrow> results_reply e (trace s) run = Inl f \<Longrightarrow>
           P (Suc fuel) s (Some (Inl (request_failed ''Error getting workflow results'' f)))
             (exchange e (GET_results run (Inl f)) s)"
    and reached: "\<And>fuel s r. Date_now s - st < t \<Longrightarrow> results_reply e (trace s) run = Inr r \<Longrightarrow>
           status r = target \<Longrightarrow> \<not> a \<or> checkAllExecutionsCompleted r \<Longrightarrow>
           P (Suc fuel) s (Some (Inr r)) (exchange e (GET_results run (Inr r)) s)"
    and mismatch: "\<And>fuel s r. Date_now s - st < t \<Longrightarrow> results_reply e (trace s) run = Inr r \<Longrightarrow>
           status r \<in> set TERMINAL_STATUSES \<Longrightarrow> status r \<noteq> target \<Longrightarrow>
           P (Suc fuel) s (Some (Inl (terminal_mismatch (status r) target)))
             (exchange e (GET_results run (Inr r)) s)"
    and polled: "\<And>fuel s r out s'. Date_now s - st < t \<Longrightarrow> results_reply e (trace s) run = Inr r \<Longrightarrow>
           \<not> (status r = target \<and> (\<not> a \<or> checkAllExecutionsCompleted r)) \<Longrightarrow>
           \<not> (status r \<in> set TERMINAL_STATUSES \<and> status r \<noteq> target) \<Longrightarrow>
           waitUntilState_loop e fuel run target a i t st
             (sleep e i (exchange e (GET_results run (Inr r)) s)) = (out, s') \<Longrightarrow>
           P fuel (sleep e i (exchange e (GET_results run (Inr r)) s)) out s' \<Longrightarrow>
           P (Suc fuel) s out s'"
  shows "P fuel s out s'"
  using run
proof (induction fuel arbitrary: s)
  case 0
  then show ?case
    using still_polling timed_out by (auto split: if_splits)
next
  case (Suc fuel)
  show ?case
  proof (cases "Date_now s - st < t")
    case False
    with Suc.prems timed_out show ?thesis by auto
  next
    case True
    show ?thesis
    proof (cases "results_reply e (trace s) run")
      case (Inl f)
      with True Suc.prems fetch_failed[OF True Inl] show ?thesis
        by (auto simp: getWorkflowResults_eq settle_def)
    next
      case (Inr r)
      consider (a) "status r = target \<and> (\<not> a \<or> checkAllExecutionsCompleted r)"
        | (b) "\<not> (status r = target \<and> (\<not> a \<or> checkAllExecutionsCompleted r))"
              "status r \<in> set TERMINAL_STATUSES \<and> status r \<noteq> target"
        | (c) "\<not> (status r = target \<and> (\<not> a \<or> checkAllExecutionsCompleted r))"
              "\<not> (status r \<in> set TERMINAL_STATUSES \<and> status r \<noteq> target)"
        by blast
      then show ?thesis
      proof cases
        case a
        with True Inr Suc.prems reached[OF True Inr] show ?thesis
          by (auto simp: getWorkflowResults_eq settle_def)
      next
        case b
        with True Inr Suc.prems mismatch[OF True Inr] show ?thesis
          by (auto simp: getWorkflowResults_eq settle_def)
      next
        case c
        with True Inr Suc.prems
        have rec: "waitUntilState_loop e fuel run target a i t st
                     (sleep e i (exchange e (GET_results run (Inr r)) s)) = (out, s')"
          by (auto simp: getWorkflowResults_eq settle_def)
        from polled[OF True Inr c rec Suc.IH[OF rec]] show ?thesis .
      qed
    qed
  qed
qed

lemma waitUntilState_loop_extends:
  assumes "waitUntilState_loop e fuel run target a i t st s = (out, s')"
  shows "\<exists>evs. trace s' = trace s @ evs"
  using assms by (induction rule: waitUntilState_loop_induct) auto

lemma waitUntilState_loop_active:
  assumes "waitUntilState_loop e fuel run target a i t st s = (out, s')"
  shows "activeSessionId s' = activeSessionId s"
  using assms by (induction rule: waitUntilState_loop_induct) auto

lemma waitUntilState_loop_fetch:
  assumes "waitUntilState_loop e fuel run target a i t st s = (out, s')"
  shows "trace s' = trace s @ pre @ GET_results run' reply # post \<Longrightarrow>
   run' = run \<and>
   (case reply of
      Inl f \<Rightarrow> post = [] \<and> out = Some (Inl (request_failed ''Error getting workflow results'' f))
    | Inr r \<Rightarrow>
        if status r = target \<and> (\<not> a \<or> checkAllExecutionsCompleted r)
        then post = [] \<and> out = Some (Inr r)
        else if status r \<in> set TERMINAL_STATUSES \<and> status r \<noteq> target
        then post = [] \<and> out = Some (Inl (terminal_mismatch (status r) target))
        else \<exists>post'. post = Sleep i # post')"
  using assms
proof (induction arbitrary: pre rule: waitUntilState_loop_induct)
  case (polled fuel s r out s')
  let ?s2 = "sleep e i (exchange e (GET_results run (Inr r)) s)"
  from waitUntilState_loop_extends[OF polled.hyps(5)]
  obtain evs where evs: "trace s' = trace ?s2 @ evs" by blast
  with polled.prems
  have eq: "pre @ GET_results run' reply # post = GET_results run (Inr r) # Sleep i # evs"
    by simp
  from split_Cons[OF eq] show ?case
  proof
    assume "pre = [] \<and> GET_results run' reply = GET_results run (Inr r) \<and> post = Sleep i # evs"
    with polled.hyps(3,4) show ?thesis by auto
  next
    assume "\<exists>pre'. pre = GET_results run (Inr r) # pre' \<and>
                    pre' @ GET_results run' reply # post = Sleep i # evs"
    then obtain pre' where q: "pre' @ GET_results run' reply # post = Sleep i # evs" by blast
    from split_Cons[OF q] obtain pre'' where
      "pre'' @ GET_results run' reply # post = evs" by auto
    with evs have "trace s' = trace ?s2 @ pre'' @ GET_results run' reply # post" by simp
    from polled.IH[OF this] show ?thesis .
  qed
next
  case (fetch_failed fuel s f)
  from fetch_failed.prems have "pre = [] \<and> post = [] \<and> reply = Inl f \<and> run' = run"
    by (auto simp: Cons_eq_append_conv append_eq_Cons_conv)
  then show ?case by simp
next
  case (reached fuel s r)
  from reached.prems have "pre = [] \<and> post = [] \<and> reply = Inr r \<and> run' = run"
    by (auto simp: Cons_eq_append_conv append_eq_Cons_conv)
  with reached.hyps(3,4) show ?case by simp
next
  case (mismatch fuel s r)
  from mismatch.prems have "pre = [] \<and> post = [] \<and> reply = Inr r \<and> run' = run"
    by (auto simp: Cons_eq_append_conv append_eq_Cons_conv)
  with mismatch.hyps(3,4) show ?case by simp
qed simp_all

lemma waitUntilState_loop_returns:
  assumes "waitUntilState_loop e fuel run target a i t st s = (out, s')"
  shows "(out = None \<and> Date_now s' - st < t) \<or>
         (out = Some (Inl (wait_timed_out e target a t)) \<and> t \<le> Date_now s' - st \<and>
            (trace s' = trace s \<or> (\<exists>pre. trace s' = trace s @ pre @ [Sleep i]))) \<or>
         (\<exists>pre reply. trace s' = trace s @ pre @ [GET_results run reply])"
  using assms
proof (induction rule: waitUntilState_loop_induct)
  case (polled fuel s r out s')
  let ?s2 = "sleep e i (exchange e (GET_results run (Inr r)) s)"
  from polled.IH show ?case
  proof (elim disjE conjE exE)
    assume "trace s' = trace ?s2" "out = Some (Inl (wait_timed_out e target a t))" "t \<le> Date_now s' - st"
    then show ?thesis by simp
  qed auto
qed auto


lemma events_since_append: "trace s' = trace s @ evs \<Longrightarrow> events_since s s' = evs"
  by (simp add: events_since_def)

lemma minWait_elapsed_trace:
  "trace (minWait_elapsed e options s) =
     trace s @ (if 0 < nullish (minWaitTime options) 0 then [Sleep (nullish (minWaitTime options) 0)] else [])"
  by (simp add: minWait_elapsed_def Let_def)

lemma waitUntilState_eq:
  "waitUntilState e fuel run target options s =
     waitUntilState_loop e fuel run target (nullish (allInstructionsExecuted options) False)
       (nullish (pollingInterval options) 2000) (nullish (timeout options) 60000)
       (Date_now (minWait_elapsed e options s)) (minWait_elapsed e options s)"
  by (simp add: waitUntilState_def Let_def)

text \<open>A fetch among the events of a call of \<^verbatim>\<open>waitUntilState\<close> is a fetch of its loop.\<close>

lemma waitUntilState_fetch_in_loop:
  assumes "waitUntilState e fuel run target options s = (out, s')"
    and "events_since s s' = pre @ GET_results run' reply # post"
  shows "\<exists>pre'. trace s' = trace (minWait_elapsed e options s) @ pre' @ GET_results run' reply # post"
proof -
  let ?s0 = "minWait_elapsed e options s"
  from assms(1) obtain evs where evs: "trace s' = trace ?s0 @ evs"
    unfolding waitUntilState_eq using waitUntilState_loop_extends by blast
  show ?thesis
  proof (cases "0 < nullish (minWaitTime options) 0")
    case False
    with evs assms(2) show ?thesis
      by (auto simp: minWait_elapsed_trace events_since_def)
  next
    case True
    with evs have "events_since s s' = Sleep (nullish (minWaitTime options) 0) # evs"
      by (simp add: minWait_elapsed_trace events_since_def)
    with assms(2) have "pre @ GET_results run' reply # post = Sleep (nullish (minWaitTime options) 0) # evs"
      by simp
    from split_Cons[OF this] obtain pre' where "pre' @ GET_results run' reply # post = evs"
      by auto
    with evs show ?thesis by auto
  qed
qed

lemma checkAllExecutionsCompleted_iff:
  "checkAllExecutionsCompleted r \<longleftrightarrow>
     (\<exists>xs. executions r = Some xs \<and> xs \<noteq> [] \<and> exec_status (last xs) = ''C'')"
  by (auto simp: checkAllExecutionsCompleted_def AgentExecutionStatus_COMPLETED_def last_conv_nth
           split: option.splits)

lemmas run_defs = waitUntilState_def minWait_elapsed_def nullish_def getWorkflowResults_def
  settle_def exchange_def sleep_def timer_delay_def Date_now_def scripted_def fetches_def
  snapshot_def
  constructor_def TERMINAL_STATUSES_def checkAllExecutionsCompleted_def Let_def events_since_def

section \<open>Claims on \<^verbatim>\<open>waitUntilState\<close>\<close>

text \<open>
  C1. Whatever the fuel, that is however long the call has run: when a fetch of the call
  brought a snapshot whose status is terminal and is not the target status, that fetch is
  the last event of the call (no fetch and no timer after it), and the call has failed
  with the terminal-mismatch exception, whose message gives the display name of the
  status observed and the display name of the target status.
\<close>

theorem terminal_mismatch_fails_at_once:
  assumes "waitUntilState e fuel run target options s = (out, s')"
    and "events_since s s' = pre @ GET_results run (Inr results) # post"
    and "status results \<in> set TERMINAL_STATUSES"
    and "status results \<noteq> target"
  shows "post = [] \<and>
         out = Some (Inl (WitriumClientException
                 (''Workflow run reached terminal status '' @
                  quoted (template (getStatusName (status results))) @
                  '' before reaching target status '' @
                  quoted (template (getStatusName target)))))"
proof -
  from waitUntilState_fetch_in_loop[OF assms(1,2)] obtain pre' where
    "trace s' = trace (minWait_elapsed e options s) @ pre' @ GET_results run (Inr results) # post"
    by blast
  from waitUntilState_loop_fetch[OF assms(1)[unfolded waitUntilState_eq] this] assms(3,4)
  show ?thesis by (simp add: terminal_mismatch_def Let_def)
qed

theorem terminal_mismatch_fails_at_once_witness:
  "events_since (constructor 0 [])
     (snd (waitUntilState (scripted [snapshot ''P'' None, snapshot ''F'' None] ''60'') 3 ''r1'' ''C''
        \<lparr>allInstructionsExecuted = None, minWaitTime = None, pollingInterval = None, timeout = None\<rparr>
        (constructor 0 []))) =
     [GET_results ''r1'' (Inr (snapshot ''P'' None)), Sleep 2000] @
      GET_results ''r1'' (Inr (snapshot ''F'' None)) # [] \<and>
   fst (waitUntilState (scripted [snapshot ''P'' None, snapshot ''F'' None] ''60'') 3 ''r1'' ''C''
        \<lparr>allInstructionsExecuted = None, minWaitTime = None, pollingInterval = None, timeout = None\<rparr>
        (constructor 0 [])) =
     Some (Inl (WitriumClientException
       (''Workflow run reached terminal status '' @ quoted ''failed'' @
        '' before reaching target status '' @ quoted ''completed'')))"
proof -
  let ?e = "scripted [snapshot ''P'' None, snapshot ''F'' None] ''60''"
  let ?o = "\<lparr>allInstructionsExecuted = None, minWaitTime = None, pollingInterval = None, timeout = None\<rparr>"
  let ?s = "constructor 0 []"
  obtain out s' where run: "waitUntilState ?e 3 ''r1'' ''C'' ?o ?s = (out, s')"
    by (cases "waitUntilState ?e 3 ''r1'' ''C'' ?o ?s")
  have evs: "events_since ?s (snd (waitUntilState ?e 3 ''r1'' ''C'' ?o ?s)) =
     [GET_results ''r1'' (Inr (snapshot ''P'' None)), Sleep 2000] @
      GET_results ''r1'' (Inr (snapshot ''F'' None)) # []"
    by (simp add: run_defs eval_nat_numeral)
  with run have a: "events_since ?s s' =
     [GET_results ''r1'' (Inr (snapshot ''P'' None)), Sleep 2000] @
      GET_results ''r1'' (Inr (snapshot ''F'' None)) # []" by simp
  have b: "status (snapshot ''F'' None) \<in> set TERMINAL_STATUSES"
    by (simp add: snapshot_def TERMINAL_STATUSES_def)
  have c: "status (snapshot ''F'' None) \<noteq> ''C''" by (simp add: snapshot_def)
  from terminal_mismatch_fails_at_once[OF run a b c] run evs
  show ?thesis by (simp add: snapshot_def getStatusName_known)
qed

text \<open>
  C2. Whatever the fuel: the call has returned a snapshot exactly when a fetch of the call
  brought that snapshot and its status is the target status and, if
  \<^verbatim>\<open>allInstructionsExecuted\<close> is set, its list of executions is not empty and the last
  one's status is Completed; that fetch is then the last event of the call. When
  \<^verbatim>\<open>allInstructionsExecuted\<close> is set and a fetch brought a snapshot with the target status
  whose last execution is not Completed (or which has none), the call has not returned it
  and the next event is the timer of the polling interval.
\<close>

theorem waitUntilState_success:
  assumes "waitUntilState e fuel run target options s = (out, s')"
  shows "(\<forall>r. out = Some (Inr r) \<longleftrightarrow>
            (\<exists>pre post. events_since s s' = pre @ GET_results run (Inr r) # post) \<and>
            status r = target \<and>
            (\<not> nullish (allInstructionsExecuted options) False \<or>
             (\<exists>xs. executions r = Some xs \<and> xs \<noteq> [] \<and> exec_status (last xs) = COMPLETED))) \<and>
         (\<forall>pre r post. events_since s s' = pre @ GET_results run (Inr r) # post \<and>
            status r = target \<and>
            (\<not> nullish (allInstructionsExecuted options) False \<or>
             (\<exists>xs. executions r = Some xs \<and> xs \<noteq> [] \<and> exec_status (last xs) = COMPLETED)) \<longrightarrow>
            post = []) \<and>
         (\<forall>pre r post. events_since s s' = pre @ GET_results run (Inr r) # post \<and>
            status r = target \<and> nullish (allInstructionsExecuted options) False \<and>
            \<not> (\<exists>xs. executions r = Some xs \<and> xs \<noteq> [] \<and> exec_status (last xs) = COMPLETED) \<longrightarrow>
            out \<noteq> Some (Inr r) \<and>
            (\<exists>post'. post = Sleep (nullish (pollingInterval options) 2000) # post'))"
proof -
  let ?a = "nullish (allInstructionsExecuted options) False"
  let ?i = "nullish (pollingInterval options) 2000"
  let ?s0 = "minWait_elapsed e options s"
  note loop = assms[unfolded waitUntilState_eq]
  have done_iff: "checkAllExecutionsCompleted r \<longleftrightarrow>
      (\<exists>xs. executions r = Some xs \<and> xs \<noteq> [] \<and> exec_status (last xs) = COMPLETED)" for r
    by (simp add: checkAllExecutionsCompleted_iff COMPLETED_def)
  have fetch: "events_since s s' = pre @ GET_results run (Inr r) # post \<Longrightarrow>
      (if status r = target \<and> (\<not> ?a \<or> checkAllExecutionsCompleted r)
       then post = [] \<and> out = Some (Inr r)
       else if status r \<in> set TERMINAL_STATUSES \<and> status r \<noteq> target
       then post = [] \<and> out = Some (Inl (terminal_mismatch (status r) target))
       else \<exists>post'. post = Sleep ?i # post')" for pre r post
  proof -
    assume "events_since s s' = pre @ GET_results run (Inr r) # post"
    from waitUntilState_fetch_in_loop[OF assms this] obtain pre' where
      "trace s' = trace ?s0 @ pre' @ GET_results run (Inr r) # post" by blast
    from waitUntilState_loop_fetch[OF loop this] show ?thesis by simp
  qed
  have since: "trace s' = trace ?s0 @ evs \<Longrightarrow> \<exists>pre. events_since s s' = pre @ evs" for evs
    by (simp add: minWait_elapsed_trace events_since_def)
  have returned: "out = Some (Inr r) \<Longrightarrow>
      (\<exists>pre. events_since s s' = pre @ GET_results run (Inr r) # []) \<and> status r = target \<and>
      (\<not> ?a \<or> checkAllExecutionsCompleted r)" for r
  proof -
    assume out: "out = Some (Inr r)"
    with waitUntilState_loop_returns[OF loop] obtain pre reply where
      tr: "trace s' = trace ?s0 @ pre @ [GET_results run reply]" by auto
    from waitUntilState_loop_fetch[OF loop, of pre run reply "[]"] tr out
    have "reply = Inr r \<and> status r = target \<and> (\<not> ?a \<or> checkAllExecutionsCompleted r)"
      by (auto split: sum.splits if_splits)
    moreover from since[of "pre @ [GET_results run reply]"] tr
    obtain pre' where "events_since s s' = pre' @ pre @ [GET_results run reply]" by auto
    ultimately show ?thesis by (metis append.assoc)
  qed
  have a: "out = Some (Inr r) \<longleftrightarrow>
            (\<exists>pre post. events_since s s' = pre @ GET_results run (Inr r) # post) \<and>
            status r = target \<and> (\<not> ?a \<or> checkAllExecutionsCompleted r)" for r
  proof
    assume "out = Some (Inr r)"
    from returned[OF this] show "(\<exists>pre post. events_since s s' = pre @ GET_results run (Inr r) # post) \<and>
            status r = target \<and> (\<not> ?a \<or> checkAllExecutionsCompleted r)" by blast
  next
    assume "(\<exists>pre post. events_since s s' = pre @ GET_results run (Inr r) # post) \<and>
            status r = target \<and> (\<not> ?a \<or> checkAllExecutionsCompleted r)"
    then obtain pre post where "events_since s s' = pre @ GET_results run (Inr r) # post"
      and c: "status r = target \<and> (\<not> ?a \<or> checkAllExecutionsCompleted r)" by blast
    from fetch[OF this(1)] c show "out = Some (Inr r)" by simp
  qed
  have b: "events_since s s' = pre @ GET_results run (Inr r) # post \<and> status r = target \<and>
            (\<not> ?a \<or> checkAllExecutionsCompleted r) \<longrightarrow> post = []" for pre r post
    using fetch[of pre r post] by auto
  have c: "events_since s s' = pre @ GET_results run (Inr r) # post \<and> status r = target \<and>
            ?a \<and> \<not> checkAllExecutionsCompleted r \<longrightarrow>
            out \<noteq> Some (Inr r) \<and> (\<exists>post'. post = Sleep ?i # post')" for pre r post
    using fetch[of pre r post] returned[of r] by auto
  from a b c show ?thesis unfolding done_iff by blast
qed

theorem waitUntilState_success_witness:
  "events_since (constructor 0 [])
     (snd (waitUntilState
        (scripted [snapshot ''C'' (Some [execution ''R'']), snapshot ''C'' (Some [execution ''C''])] ''60'')
        3 ''r1'' ''C''
        \<lparr>allInstructionsExecuted = Some True, minWaitTime = None, pollingInterval = None, timeout = None\<rparr>
        (constructor 0 []))) =
     [GET_results ''r1'' (Inr (snapshot ''C'' (Some [execution ''R'']))), Sleep 2000] @
      GET_results ''r1'' (Inr (snapshot ''C'' (Some [execution ''C'']))) # [] \<and>
   fst (waitUntilState
        (scripted [snapshot ''C'' (Some [execution ''R'']), snapshot ''C'' (Some [execution ''C''])] ''60'')
        3 ''r1'' ''C''
        \<lparr>allInstructionsExecuted = Some True, minWaitTime = None, pollingInterval = None, timeout = None\<rparr>
        (constructor 0 [])) =
     Some (Inr (snapshot ''C'' (Some [execution ''C''])))"
proof -
  let ?e = "scripted [snapshot ''C'' (Some [execution ''R'']), snapshot ''C'' (Some [execution ''C''])] ''60''"
  let ?o = "\<lparr>allInstructionsExecuted = Some True, minWaitTime = None, pollingInterval = None, timeout = None\<rparr>"
  let ?s = "constructor 0 []"
  obtain out s' where run: "waitUntilState ?e 3 ''r1'' ''C'' ?o ?s = (out, s')"
    by (cases "waitUntilState ?e 3 ''r1'' ''C'' ?o ?s")
  have evs: "events_since ?s (snd (waitUntilState ?e 3 ''r1'' ''C'' ?o ?s)) =
     [GET_results ''r1'' (Inr (snapshot ''C'' (Some [execution ''R'']))), Sleep 2000] @
      GET_results ''r1'' (Inr (snapshot ''C'' (Some [execution ''C'']))) # []"
    by (simp add: run_defs execution_def AgentExecutionStatus_COMPLETED_def eval_nat_numeral)
  with run have a: "\<exists>pre post. events_since ?s s' =
      pre @ GET_results ''r1'' (Inr (snapshot ''C'' (Some [execution ''C'']))) # post"
    by (metis snd_conv)
  have b: "status (snapshot ''C'' (Some [execution ''C''])) = ''C''"
    by (simp add: snapshot_def)
  have c: "\<exists>xs. executions (snapshot ''C'' (Some [execution ''C''])) = Some xs \<and> xs \<noteq> [] \<and>
             exec_status (last xs) = COMPLETED"
    by (simp add: snapshot_def execution_def COMPLETED_def)
  from waitUntilState_success[OF run] a b c
  have "out = Some (Inr (snapshot ''C'' (Some [execution ''C''])))" by blast
  with run evs show ?thesis by simp
qed

text \<open>
  With a positive polling interval that fits a timer, a service that never brings the
  call to a verdict lets the loop run until the time is up: each pass takes at least the
  interval.
\<close>

lemma waitUntilState_loop_never:
  assumes "0 < i" and "i \<le> 2147483647"
    and never: "\<And>h. \<exists>r. results_reply e h run = Inr r \<and>
                  \<not> (status r = target \<and> (\<not> a \<or> checkAllExecutionsCompleted r)) \<and>
                  \<not> (status r \<in> set TERMINAL_STATUSES \<and> status r \<noteq> target)"
  shows "nat (st + t - clock s) \<le> n \<Longrightarrow>
         \<exists>s'. waitUntilState_loop e n run target a i t st s =
                 (Some (Inl (wait_timed_out e target a t)), s') \<and> t \<le> Date_now s' - st"
proof (induction n arbitrary: s)
  case 0
  then show ?case by (simp add: Date_now_def)
next
  case (Suc n)
  show ?case
  proof (cases "Date_now s - st < t")
    case False
    then show ?thesis by simp
  next
    case True
    from never[of "trace s"] obtain r where r: "results_reply e (trace s) run = Inr r"
      and no: "\<not> (status r = target \<and> (\<not> a \<or> checkAllExecutionsCompleted r))"
              "\<not> (status r \<in> set TERMINAL_STATUSES \<and> status r \<noteq> target)" by blast
    let ?s2 = "sleep e i (exchange e (GET_results run (Inr r)) s)"
    from True r no have step: "waitUntilState_loop e (Suc n) run target a i t st s =
        waitUntilState_loop e n run target a i t st ?s2"
      by (auto simp: getWorkflowResults_eq settle_def)
    have "clock s + i \<le> clock ?s2"
      using clock_sleep[of i "exchange e (GET_results run (Inr r)) s" e] \<open>0 < i\<close> \<open>i \<le> 2147483647\<close>
            clock_exchange[of s e "GET_results run (Inr r)"] by linarith
    with \<open>0 < i\<close> Suc.prems have "nat (st + t - clock ?s2) \<le> n" by linarith
    from Suc.IH[OF this] step show ?thesis by simp
  qed
qed

lemma elapse_append: "elapse e h (xs @ ys) = elapse e h xs + elapse e (h @ xs) ys"
  by (induction xs arbitrary: h) simp_all

text \<open>No fetch is made once the time since the start has reached the timeout.\<close>

lemma waitUntilState_loop_fetch_in_time:
  assumes "waitUntilState_loop e fuel run target a i t st s = (out, s')"
  shows "trace s' = trace s @ pre @ GET_results run' reply # post \<Longrightarrow>
         Date_now s - st + elapse e (trace s) pre < t"
  using assms
proof (induction arbitrary: pre rule: waitUntilState_loop_induct)
  case (polled fuel s r out s')
  let ?g = "GET_results run (Inr r)"
  let ?s2 = "sleep e i (exchange e ?g s)"
  from waitUntilState_loop_extends[OF polled.hyps(5)]
  obtain evs where evs: "trace s' = trace ?s2 @ evs" by blast
  with polled.prems
  have eq: "pre @ GET_results run' reply # post = ?g # Sleep i # evs" by simp
  from split_Cons[OF eq] show ?case
  proof
    assume "pre = [] \<and> GET_results run' reply = ?g \<and> post = Sleep i # evs"
    with polled.hyps(1) show ?thesis by simp
  next
    assume "\<exists>pre'. pre = ?g # pre' \<and> pre' @ GET_results run' reply # post = Sleep i # evs"
    then obtain pre1 where p1: "pre = ?g # pre1"
      and q: "pre1 @ GET_results run' reply # post = Sleep i # evs" by blast
    from split_Cons[OF q] obtain pre2 where p2: "pre1 = Sleep i # pre2"
      and "pre2 @ GET_results run' reply # post = evs" by auto
    with evs have "trace s' = trace ?s2 @ pre2 @ GET_results run' reply # post" by simp
    from polled.IH[OF this] have "Date_now ?s2 - st + elapse e (trace ?s2) pre2 < t" .
    moreover have "Date_now ?s2 - st + elapse e (trace ?s2) pre2 =
                   Date_now s - st + elapse e (trace s) pre"
      unfolding p1 p2 by (simp add: Date_now_def sleep_def exchange_def)
    ultimately show ?thesis by simp
  qed
next
  case (fetch_failed fuel s f)
  from fetch_failed.prems have "pre = []"
    by (auto simp: Cons_eq_append_conv append_eq_Cons_conv)
  with fetch_failed.hyps(1) show ?case by simp
next
  case (reached fuel s r)
  from reached.prems have "pre = []"
    by (auto simp: Cons_eq_append_conv append_eq_Cons_conv)
  with reached.hyps(1) show ?case by simp
next
  case (mismatch fuel s r)
  from mismatch.prems have "pre = []"
    by (auto simp: Cons_eq_append_conv append_eq_Cons_conv)
  with mismatch.hyps(1) show ?case by simp
qed simp_all

text \<open>
  At the start and after each timer the loop test is made: there, once the time since
  the start has reached the timeout, the call fails and nothing more happens.
\<close>

lemma waitUntilState_loop_boundary:
  assumes "waitUntilState_loop e fuel run target a i t st s = (out, s')"
  shows "trace s' = trace s @ pre @ post \<Longrightarrow>
         pre = [] \<or> (\<exists>p. pre = p @ [Sleep i]) \<Longrightarrow>
         t \<le> Date_now s - st + elapse e (trace s) pre \<Longrightarrow>
         post = [] \<and> out = Some (Inl (wait_timed_out e target a t))"
  using assms
proof (induction arbitrary: pre rule: waitUntilState_loop_induct)
  case (polled fuel s r out s')
  let ?g = "GET_results run (Inr r)"
  let ?s2 = "sleep e i (exchange e ?g s)"
  from waitUntilState_loop_extends[OF polled.hyps(5)]
  obtain evs where evs: "trace s' = trace ?s2 @ evs" by blast
  with polled.prems(1) have eq: "pre @ post = ?g # Sleep i # evs" by simp
  from polled.prems(3) polled.hyps(1) have "pre \<noteq> []" by auto
  with eq obtain pre1 where p1: "pre = ?g # pre1" and q: "pre1 @ post = Sleep i # evs"
    by (cases pre) auto
  from polled.prems(2) p1 have "pre1 \<noteq> []" by auto
  with q obtain pre2 where p2: "pre1 = Sleep i # pre2" and r: "pre2 @ post = evs"
    by (cases pre1) auto
  from polled.prems(2) p1 p2 have b: "pre2 = [] \<or> (\<exists>p. pre2 = p @ [Sleep i])"
    by (auto simp: Cons_eq_append_conv)
  from evs r have tr: "trace s' = trace ?s2 @ pre2 @ post" by simp
  have "Date_now ?s2 - st + elapse e (trace ?s2) pre2 =
        Date_now s - st + elapse e (trace s) pre"
    unfolding p1 p2 by (simp add: Date_now_def sleep_def exchange_def)
  with polled.prems(3) have "t \<le> Date_now ?s2 - st + elapse e (trace ?s2) pre2" by simp
  from polled.IH[OF tr b this] show ?case .
next
  case (still_polling s)
  then show ?case by auto
next
  case (timed_out fuel s)
  then show ?case by simp
next
  case (fetch_failed fuel s f)
  from fetch_failed.prems(3) fetch_failed.hyps(1) have "pre \<noteq> []" by auto
  with fetch_failed.prems(1) have "pre = [GET_results run (Inl f)]"
    by (cases pre) auto
  with fetch_failed.prems(2) show ?case by simp
next
  case (reached fuel s r)
  from reached.prems(3) reached.hyps(1) have "pre \<noteq> []" by auto
  with reached.prems(1) have "pre = [GET_results run (Inr r)]"
    by (cases pre) auto
  with reached.prems(2) show ?case by simp
next
  case (mismatch fuel s r)
  from mismatch.prems(3) mismatch.hyps(1) have "pre \<noteq> []" by auto
  with mismatch.prems(1) have "pre = [GET_results run (Inr r)]"
    by (cases pre) auto
  with mismatch.prems(2) show ?case by simp
qed

text \<open>The clock moves by the durations of the events of the loop and by nothing else.\<close>

lemma waitUntilState_loop_clock:
  assumes "waitUntilState_loop e fuel run target a i t st s = (out, s')"
  shows "Date_now s' = Date_now s + elapse e (trace s) (events_since s s')"
  using assms
proof (induction rule: waitUntilState_loop_induct)
  case (polled fuel s r out s')
  let ?g = "GET_results run (Inr r)"
  let ?s2 = "sleep e i (exchange e ?g s)"
  from waitUntilState_loop_extends[OF polled.hyps(5)]
  obtain evs where evs: "trace s' = trace ?s2 @ evs" by blast
  then have a: "events_since ?s2 s' = evs" by (rule events_since_append)
  from evs have "trace s' = trace s @ ?g # Sleep i # evs"
    by (simp add: sleep_def exchange_def)
  then have b: "events_since s s' = ?g # Sleep i # evs" by (rule events_since_append)
  from polled.IH a have "Date_now s' = Date_now ?s2 + elapse e (trace ?s2) evs" by simp
  then show ?case unfolding b by (simp add: Date_now_def sleep_def exchange_def)
qed (simp_all add: events_since_def Date_now_def exchange_def)

text \<open>
  C6. First, whatever the fuel: when the call has ended and every fetch brought a
  snapshot that neither met the condition for success nor was a terminal mismatch, it
  has failed with the timeout exception, whose message gives the display name of the
  target status and, when \<^verbatim>\<open>allInstructionsExecuted\<close> is set, the words about the
  instructions; and by then the time since the recorded start is the timeout or more.
  Second, with a positive polling interval (one that fits a timer) and a service that
  never brings such a verdict, the call does end so. Third, a positive \<^verbatim>\<open>minWaitTime\<close>
  is slept before anything else, the start is the clock after that sleep, and the call
  goes on exactly as a call without \<^verbatim>\<open>minWaitTime\<close> made after the sleep: the timeout is
  counted from there. Fourth, every fetch of the call is made at a time since the start
  that is below the timeout. Fifth, at the start and after each polling timer, once the
  time since the start has reached the timeout, nothing more happens (no fetch, no
  timer) and the call has failed with the timeout exception. Sixth, the time since the
  start is what the clock shows: at the end of the call, \<^verbatim>\<open>Date.now()\<close> minus the recorded
  start is the time the events since the start have taken.
\<close>

theorem waitUntilState_times_out:
  "(\<forall>out s'. waitUntilState e fuel run target options s = (out, s') \<and> out \<noteq> None \<and>
       (\<forall>pre reply post. events_since s s' = pre @ GET_results run reply # post \<longrightarrow>
          (\<exists>r. reply = Inr r \<and>
             \<not> (status r = target \<and>
                (\<not> nullish (allInstructionsExecuted options) False \<or> checkAllExecutionsCompleted r)) \<and>
             \<not> (status r \<in> set TERMINAL_STATUSES \<and> status r \<noteq> target))) \<longrightarrow>
       out = Some (Inl (WitriumClientException
               (''Workflow run did not reach status '' @ quoted (template (getStatusName target)) @
                (if nullish (allInstructionsExecuted options) False
                 then '' and all instructions executed'' else []) @
                '' within '' @ show_seconds e (nullish (timeout options) 60000) @ '' seconds''))) \<and>
       nullish (timeout options) 60000 \<le> Date_now s' - Date_now (minWait_elapsed e options s)) \<and>
   (0 < nullish (pollingInterval options) 2000 \<and>
    nullish (pollingInterval options) 2000 \<le> 2147483647 \<and>
    (\<forall>h. \<exists>r. results_reply e h run = Inr r \<and>
       \<not> (status r = target \<and>
          (\<not> nullish (allInstructionsExecuted options) False \<or> checkAllExecutionsCompleted r)) \<and>
       \<not> (status r \<in> set TERMINAL_STATUSES \<and> status r \<noteq> target)) \<longrightarrow>
    (\<exists>n s'. waitUntilState e n run target options s =
       (Some (Inl (WitriumClientException
               (''Workflow run did not reach status '' @ quoted (template (getStatusName target)) @
                (if nullish (allInstructionsExecuted options) False
                 then '' and all instructions executed'' else []) @
                '' within '' @ show_seconds e (nullish (timeout options) 60000) @ '' seconds''))), s') \<and>
       nullish (timeout options) 60000 \<le> Date_now s' - Date_now (minWait_elapsed e options s))) \<and>
   (0 < nullish (minWaitTime options) 0 \<longrightarrow>
      minWait_elapsed e options s = sleep e (nullish (minWaitTime options) 0) s \<and>
      waitUntilState e fuel run target options s =
        waitUntilState e fuel run target (options\<lparr>minWaitTime := None\<rparr>)
          (sleep e (nullish (minWaitTime options) 0) s)) \<and>
   (\<forall>out s' pre run' reply post.
      waitUntilState e fuel run target options s = (out, s') \<and>
      events_since (minWait_elapsed e options s) s' = pre @ GET_results run' reply # post \<longrightarrow>
      elapse e (trace (minWait_elapsed e options s)) pre < nullish (timeout options) 60000) \<and>
   (\<forall>out s' pre post.
      waitUntilState e fuel run target options s = (out, s') \<and>
      events_since (minWait_elapsed e options s) s' = pre @ post \<and>
      (pre = [] \<or> (\<exists>p. pre = p @ [Sleep (nullish (pollingInterval options) 2000)])) \<and>
      nullish (timeout options) 60000 \<le> elapse e (trace (minWait_elapsed e options s)) pre \<longrightarrow>
      post = [] \<and>
      out = Some (Inl (WitriumClientException
              (''Workflow run did not reach status '' @ quoted (template (getStatusName target)) @
               (if nullish (allInstructionsExecuted options) False
                then '' and all instructions executed'' else []) @
               '' within '' @ show_seconds e (nullish (timeout options) 60000) @ '' seconds'')))) \<and>
   (\<forall>out s'. waitUntilState e fuel run target options s = (out, s') \<longrightarrow>
      Date_now s' - Date_now (minWait_elapsed e options s) =
        elapse e (trace (minWait_elapsed e options s)) (events_since (minWait_elapsed e options s) s'))"
proof -
  let ?a = "nullish (allInstructionsExecuted options) False"
  let ?i = "nullish (pollingInterval options) 2000"
  let ?t = "nullish (timeout options) 60000"
  let ?s0 = "minWait_elapsed e options s"
  have msg: "wait_timed_out e target ?a ?t = WitriumClientException
               (''Workflow run did not reach status '' @ quoted (template (getStatusName target)) @
                (if ?a then '' and all instructions executed'' else []) @
                '' within '' @ show_seconds e ?t @ '' seconds'')"
    by (simp add: wait_timed_out_def Let_def)
  have partial: "out = Some (Inl (wait_timed_out e target ?a ?t)) \<and> ?t \<le> Date_now s' - Date_now ?s0"
    if run: "waitUntilState e fuel run target options s = (out, s')" and "out \<noteq> None"
      and quiet: "\<And>pre reply post. events_since s s' = pre @ GET_results run reply # post \<Longrightarrow>
          (\<exists>r. reply = Inr r \<and> \<not> (status r = target \<and> (\<not> ?a \<or> checkAllExecutionsCompleted r)) \<and>
             \<not> (status r \<in> set TERMINAL_STATUSES \<and> status r \<noteq> target))"
    for out s'
  proof -
    note loop = run[unfolded waitUntilState_eq]
    from waitUntilState_loop_returns[OF loop] \<open>out \<noteq> None\<close>
    consider "out = Some (Inl (wait_timed_out e target ?a ?t)) \<and> ?t \<le> Date_now s' - Date_now ?s0"
      | pre reply where "trace s' = trace ?s0 @ pre @ [GET_results run reply]" by auto
    then show ?thesis
    proof cases
      case 1
      then show ?thesis .
    next
      case 2
      then obtain pre' where ev: "events_since s s' = pre' @ GET_results run reply # []"
        by (auto simp: minWait_elapsed_trace events_since_def)
      from quiet[OF ev] obtain r where r: "reply = Inr r"
        "\<not> (status r = target \<and> (\<not> ?a \<or> checkAllExecutionsCompleted r))"
        "\<not> (status r \<in> set TERMINAL_STATUSES \<and> status r \<noteq> target)" by blast
      from waitUntilState_loop_fetch[OF loop, of pre run reply "[]"] 2 r
      show ?thesis by (auto split: if_splits)
    qed
  qed
  have total: "\<exists>n s'. waitUntilState e n run target options s =
                 (Some (Inl (wait_timed_out e target ?a ?t)), s') \<and> ?t \<le> Date_now s' - Date_now ?s0"
    if "0 < ?i" and "?i \<le> 2147483647" and "\<And>h. \<exists>r. results_reply e h run = Inr r \<and>
       \<not> (status r = target \<and> (\<not> ?a \<or> checkAllExecutionsCompleted r)) \<and>
       \<not> (status r \<in> set TERMINAL_STATUSES \<and> status r \<noteq> target)"
    using waitUntilState_loop_never[OF that, of "Date_now ?s0" ?t ?s0 "nat (Date_now ?s0 + ?t - clock ?s0)"]
    unfolding waitUntilState_eq by blast
  have early: "minWait_elapsed e options s = sleep e (nullish (minWaitTime options) 0) s \<and>
      waitUntilState e fuel run target options s =
        waitUntilState e fuel run target (options\<lparr>minWaitTime := None\<rparr>)
          (sleep e (nullish (minWaitTime options) 0) s)"
    if "0 < nullish (minWaitTime options) 0"
    using that by (simp add: waitUntilState_def minWait_elapsed_def Let_def nullish_def)
  have since: "trace s' = trace ?s0 @ events_since ?s0 s'"
    if "waitUntilState e fuel run target options s = (out, s')" for out s'
    using waitUntilState_loop_extends[OF that[unfolded waitUntilState_eq]]
    by (auto simp: events_since_def)
  have in_time: "elapse e (trace ?s0) pre < ?t"
    if run: "waitUntilState e fuel run target options s = (out, s')"
      and ev: "events_since ?s0 s' = pre @ GET_results run' reply # post"
    for out s' pre run' reply post
  proof -
    from since[OF run] ev have "trace s' = trace ?s0 @ pre @ GET_results run' reply # post"
      by simp
    from waitUntilState_loop_fetch_in_time[OF run[unfolded waitUntilState_eq] this]
    show ?thesis by simp
  qed
  have boundary: "post = [] \<and> out = Some (Inl (wait_timed_out e target ?a ?t))"
    if run: "waitUntilState e fuel run target options s = (out, s')"
      and ev: "events_since ?s0 s' = pre @ post"
      and b: "pre = [] \<or> (\<exists>p. pre = p @ [Sleep ?i])"
      and late: "?t \<le> elapse e (trace ?s0) pre"
    for out s' pre post
  proof -
    from since[OF run] ev have "trace s' = trace ?s0 @ pre @ post" by simp
    from waitUntilState_loop_boundary[OF run[unfolded waitUntilState_eq] this b] late
    show ?thesis by simp
  qed
  have c1: "\<forall>out s'. waitUntilState e fuel run target options s = (out, s') \<and> out \<noteq> None \<and>
       (\<forall>pre reply post. events_since s s' = pre @ GET_results run reply # post \<longrightarrow>
          (\<exists>r. reply = Inr r \<and>
             \<not> (status r = target \<and> (\<not> ?a \<or> checkAllExecutionsCompleted r)) \<and>
             \<not> (status r \<in> set TERMINAL_STATUSES \<and> status r \<noteq> target))) \<longrightarrow>
       out = Some (Inl (wait_timed_out e target ?a ?t)) \<and> ?t \<le> Date_now s' - Date_now ?s0"
    using partial by blast
  have c2: "0 < ?i \<and> ?i \<le> 2147483647 \<and>
    (\<forall>h. \<exists>r. results_reply e h run = Inr r \<and>
       \<not> (status r = target \<and> (\<not> ?a \<or> checkAllExecutionsCompleted r)) \<and>
       \<not> (status r \<in> set TERMINAL_STATUSES \<and> status r \<noteq> target)) \<longrightarrow>
    (\<exists>n s'. waitUntilState e n run target options s =
       (Some (Inl (wait_timed_out e target ?a ?t)), s') \<and> ?t \<le> Date_now s' - Date_now ?s0)"
    using total by blast
  have c3: "0 < nullish (minWaitTime options) 0 \<longrightarrow>
      minWait_elapsed e options s = sleep e (nullish (minWaitTime options) 0) s \<and>
      waitUntilState e fuel run target options s =
        waitUntilState e fuel run target (options\<lparr>minWaitTime := None\<rparr>)
          (sleep e (nullish (minWaitTime options) 0) s)"
    using early by blast
  have c4: "\<forall>out s' pre run' reply post.
      waitUntilState e fuel run target options s = (out, s') \<and>
      events_since ?s0 s' = pre @ GET_results run' reply # post \<longrightarrow>
      elapse e (trace ?s0) pre < ?t"
    using in_time by blast
  have c5: "\<forall>out s' pre post.
      waitUntilState e fuel run target options s = (out, s') \<and>
      events_since ?s0 s' = pre @ post \<and>
      (pre = [] \<or> (\<exists>p. pre = p @ [Sleep ?i])) \<and>
      ?t \<le> elapse e (trace ?s0) pre \<longrightarrow>
      post = [] \<and> out = Some (Inl (wait_timed_out e target ?a ?t))"
    using boundary by blast
  have c6: "\<forall>out s'. waitUntilState e fuel run target options s = (out, s') \<longrightarrow>
      Date_now s' - Date_now ?s0 = elapse e (trace ?s0) (events_since ?s0 s')"
  proof (intro allI impI)
    fix out s' assume "waitUntilState e fuel run target options s = (out, s')"
    from waitUntilState_loop_clock[OF this[unfolded waitUntilState_eq]]
    show "Date_now s' - Date_now ?s0 = elapse e (trace ?s0) (events_since ?s0 s')" by simp
  qed
  show ?thesis
    unfolding msg[symmetric]
    by (intro conjI; fact c1 c2 c3 c4 c5 c6)
qed

theorem waitUntilState_times_out_witness:
  "(\<exists>n s'. waitUntilState (scripted [snapshot ''P'' None] ''0.25'') n ''r1'' ''C''
        \<lparr>allInstructionsExecuted = Some True, minWaitTime = Some 50, pollingInterval = Some 100,
         timeout = Some 250\<rparr> (constructor 0 []) =
      (Some (Inl (WitriumClientException
         (''Workflow run did not reach status '' @ quoted ''completed'' @
          '' and all instructions executed within 0.25 seconds''))), s') \<and>
      250 \<le> Date_now s' - 50) \<and>
   fetches (events_since (constructor 0 [])
     (snd (waitUntilState (scripted [snapshot ''P'' None] ''0.25'') 3 ''r1'' ''C''
        \<lparr>allInstructionsExecuted = Some True, minWaitTime = Some 50, pollingInterval = Some 100,
         timeout = Some 250\<rparr> (constructor 0 [])))) = 3 \<and>
   fst (waitUntilState (scripted [snapshot ''P'' None] ''0.25'') 3 ''r1'' ''C''
        \<lparr>allInstructionsExecuted = Some True, minWaitTime = Some 50, pollingInterval = Some 100,
         timeout = Some 250\<rparr> (constructor 0 [])) \<noteq> None"
proof -
  let ?e = "scripted [snapshot ''P'' None] ''0.25''"
  let ?o = "\<lparr>allInstructionsExecuted = Some True, minWaitTime = Some 50, pollingInterval = Some 100,
         timeout = Some 250\<rparr>"
  let ?s = "constructor 0 []"
  have i: "0 < nullish (pollingInterval ?o) 2000" "nullish (pollingInterval ?o) 2000 \<le> 2147483647"
    by (simp_all add: nullish_def)
  have quiet: "\<forall>h. \<exists>r. results_reply ?e h ''r1'' = Inr r \<and>
       \<not> (status r = ''C'' \<and>
          (\<not> nullish (allInstructionsExecuted ?o) False \<or> checkAllExecutionsCompleted r)) \<and>
       \<not> (status r \<in> set TERMINAL_STATUSES \<and> status r \<noteq> ''C'')"
    by (simp add: scripted_def snapshot_def TERMINAL_STATUSES_def)
  have start: "Date_now (minWait_elapsed ?e ?o ?s) = 50"
    by (simp add: run_defs)
  from waitUntilState_times_out[of ?e _ "''r1''" "''C''" ?o ?s, THEN conjunct2, THEN conjunct1]
    i quiet
  have "\<exists>n s'. waitUntilState ?e n ''r1'' ''C'' ?o ?s =
       (Some (Inl (WitriumClientException
               (''Workflow run did not reach status '' @ quoted (template (getStatusName ''C'')) @
                (if nullish (allInstructionsExecuted ?o) False
                 then '' and all instructions executed'' else []) @
                '' within '' @ show_seconds ?e (nullish (timeout ?o) 60000) @ '' seconds''))), s') \<and>
       nullish (timeout ?o) 60000 \<le> Date_now s' - Date_now (minWait_elapsed ?e ?o ?s)"
    by blast
  then have first: "\<exists>n s'. waitUntilState ?e n ''r1'' ''C'' ?o ?s =
      (Some (Inl (WitriumClientException
         (''Workflow run did not reach status '' @ quoted ''completed'' @
          '' and all instructions executed within 0.25 seconds''))), s') \<and>
      250 \<le> Date_now s' - 50"
    unfolding start by (simp add: getStatusName_known nullish_def scripted_def)
  have second: "fetches (events_since ?s (snd (waitUntilState ?e 3 ''r1'' ''C'' ?o ?s))) = 3"
    by (simp add: run_defs eval_nat_numeral)
  have third: "fst (waitUntilState ?e 3 ''r1'' ''C'' ?o ?s) \<noteq> None"
    by (simp add: run_defs eval_nat_numeral)
  from first second third show ?thesis by blast
qed

section \<open>The loop of \<^verbatim>\<open>runWorkflowAndWait\<close>\<close>


lemma progressed_append: "progressed (xs @ ys) = progressed xs @ progressed ys"
  by (induction xs rule: progressed.induct) simp_all

lemma fetches_append: "fetches (xs @ ys) = fetches xs + fetches ys"
  by (simp add: fetches_def)

lemma runWorkflowAndWait_loop_induct
  [consumes 1, case_names still_polling timed_out fetch_failed progress_threw terminal polled]:
  assumes run: "runWorkflowAndWait_loop e fuel run ri progress i t st acc s = (out, s')"
    and still_polling: "\<And>acc s. Date_now s - st < t \<Longrightarrow> P 0 acc s None s"
    and timed_out: "\<And>fuel acc s. \<not> Date_now s - st < t \<Longrightarrow>
           P fuel acc s (Some (Inl (run_timed_out e t))) s"
    and fetch_failed: "\<And>fuel acc s f. Date_now s - st < t \<Longrightarrow>
           results_reply e (trace s) run = Inl f \<Longrightarrow>
           P (Suc fuel) acc s (Some (Inl (request_failed ''Error getting workflow results'' f)))
             (exchange e (GET_results run (Inl f)) s)"
    and progress_threw: "\<And>fuel acc s r err. Date_now s - st < t \<Longrightarrow>
           results_reply e (trace s) run = Inr r \<Longrightarrow> progress r = Some err \<Longrightarrow>
           P (Suc fuel) acc s (Some (Inl err))
             ((exchange e (GET_results run (Inr r)) s)
                \<lparr>trace := trace s @ [GET_results run (Inr r), Progress r]\<rparr>)"
    and terminal: "\<And>fuel acc s r. Date_now s - st < t \<Longrightarrow>
           results_reply e (trace s) run = Inr r \<Longrightarrow> progress r = None \<Longrightarrow>
           status r \<in> set TERMINAL_STATUSES \<Longrightarrow>
           P (Suc fuel) acc s
             (Some (Inr (if ri then Intermediate (acc @ [r]) else Final r)))
             ((exchange e (GET_results run (Inr r)) s)
                \<lparr>trace := trace s @ [GET_results run (Inr r), Progress r]\<rparr>)"
    and polled: "\<And>fuel acc s r out s'. Date_now s - st < t \<Longrightarrow>
           results_reply e (trace s) run = Inr r \<Longrightarrow> progress r = None \<Longrightarrow>
           status r \<notin> set TERMINAL_STATUSES \<Longrightarrow>
           runWorkflowAndWait_loop e fuel run ri progress i t st (if ri then acc @ [r] else acc)
             (sleep e i ((exchange e (GET_results run (Inr r)) s)
                \<lparr>trace := trace s @ [GET_results run (Inr r), Progress r]\<rparr>)) = (out, s') \<Longrightarrow>
           P fuel (if ri then acc @ [r] else acc)
             (sleep e i ((exchange e (GET_results run (Inr r)) s)
                \<lparr>trace := trace s @ [GET_results run (Inr r), Progress r]\<rparr>)) out s' \<Longrightarrow>
           P (Suc fuel) acc s out s'"
  shows "P fuel acc s out s'"
  using run
proof (induction fuel arbitrary: acc s)
  case 0
  then show ?case
    using still_polling timed_out by (auto split: if_splits)
next
  case (Suc fuel)
  show ?case
  proof (cases "Date_now s - st < t")
    case False
    with Suc.prems timed_out show ?thesis by auto
  next
    case True
    show ?thesis
    proof (cases "results_reply e (trace s) run")
      case (Inl f)
      with True Suc.prems fetch_failed[OF True Inl] show ?thesis
        by (auto simp: getWorkflowResults_eq settle_def)
    next
      case (Inr r)
      show ?thesis
      proof (cases "progress r")
        case (Some err)
        with True Inr Suc.prems progress_threw[OF True Inr Some] show ?thesis
          by (auto simp: getWorkflowResults_eq settle_def Let_def)
      next
        case None
        show ?thesis
        proof (cases "status r \<in> set TERMINAL_STATUSES")
          case yes: True
          with True Inr None Suc.prems terminal[OF True Inr None yes] show ?thesis
            by (auto simp: getWorkflowResults_eq settle_def Let_def)
        next
          case no: False
          with True Inr None Suc.prems
          have rec: "runWorkflowAndWait_loop e fuel run ri progress i t st
                       (if ri then acc @ [r] else acc)
                       (sleep e i ((exchange e (GET_results run (Inr r)) s)
                          \<lparr>trace := trace s @ [GET_results run (Inr r), Progress r]\<rparr>)) = (out, s')"
            by (auto simp: getWorkflowResults_eq settle_def Let_def)
          from polled[OF True Inr None no rec Suc.IH[OF rec]] show ?thesis .
        qed
      qed
    qed
  qed
qed

text \<open>What the loop has done and returned, read off the events it added.\<close>

lemma runWorkflowAndWait_loop_trace:
  assumes "runWorkflowAndWait_loop e fuel run ri progress i t st acc s = (out, s')"
  shows "\<exists>evs. trace s' = trace s @ evs \<and> activeSessionId s' = activeSessionId s \<and>
           progressed evs = fetched evs \<and>
           (\<forall>rs. out = Some (Inr (Intermediate rs)) \<longrightarrow>
              ri \<and> rs = acc @ fetched evs) \<and>
           (\<forall>r. out = Some (Inr (Final r)) \<longrightarrow> \<not> ri) \<and>
           (\<forall>v. out = Some (Inr v) \<longrightarrow>
              fetched evs \<noteq> [] \<and> status (last (fetched evs)) \<in> set TERMINAL_STATUSES \<and>
              fetches evs = length (fetched evs) \<and> (\<not> ri \<longrightarrow> v = Final (last (fetched evs))))"
  using assms
proof (induction rule: runWorkflowAndWait_loop_induct)
  case (polled fuel acc s r out s')
  let ?s2 = "sleep e i ((exchange e (GET_results run (Inr r)) s)
                \<lparr>trace := trace s @ [GET_results run (Inr r), Progress r]\<rparr>)"
  from polled.IH obtain evs where evs: "trace s' = trace ?s2 @ evs"
    "activeSessionId s' = activeSessionId ?s2"
    "progressed evs = fetched evs"
    "\<forall>rs. out = Some (Inr (Intermediate rs)) \<longrightarrow> ri \<and> rs = (if ri then acc @ [r] else acc) @ fetched evs"
    "\<forall>r. out = Some (Inr (Final r)) \<longrightarrow> \<not> ri"
    "\<forall>v. out = Some (Inr v) \<longrightarrow>
       fetched evs \<noteq> [] \<and> status (last (fetched evs)) \<in> set TERMINAL_STATUSES \<and>
       fetches evs = length (fetched evs) \<and> (\<not> ri \<longrightarrow> v = Final (last (fetched evs)))"
    by blast
  let ?evs = "[GET_results run (Inr r), Progress r, Sleep i] @ evs"
  have "trace s' = trace s @ ?evs" using evs(1) by simp
  moreover have "activeSessionId s' = activeSessionId s" using evs(2) by simp
  moreover have "progressed ?evs = fetched ?evs" using evs(3) by simp
  moreover have "\<forall>rs. out = Some (Inr (Intermediate rs)) \<longrightarrow> ri \<and> rs = acc @ fetched ?evs"
  proof (intro allI impI)
    fix rs assume "out = Some (Inr (Intermediate rs))"
    with evs(4) have "ri" and "rs = (if ri then acc @ [r] else acc) @ fetched evs" by blast+
    then show "ri \<and> rs = acc @ fetched ?evs" by simp
  qed
  moreover have "\<forall>v. out = Some (Inr v) \<longrightarrow>
       fetched ?evs \<noteq> [] \<and> status (last (fetched ?evs)) \<in> set TERMINAL_STATUSES \<and>
       fetches ?evs = length (fetched ?evs) \<and> (\<not> ri \<longrightarrow> v = Final (last (fetched ?evs)))"
    using evs(6) by (simp add: fetches_def)
  ultimately show ?case using evs(5) by blast
next
  case (terminal fuel acc s r)
  show ?case
    by (rule exI[of _ "[GET_results run (Inr r), Progress r]"]) (simp add: terminal.hyps fetches_def)
next
  case (progress_threw fuel acc s r err)
  show ?case
    by (rule exI[of _ "[GET_results run (Inr r), Progress r]"]) (simp add: fetches_def)
next
  case (fetch_failed fuel acc s f)
  show ?case
    by (rule exI[of _ "[GET_results run (Inl f)]"]) (simp add: fetches_def)
next
  case (still_polling acc s)
  show ?case by (rule exI[of _ "[]"]) simp
next
  case (timed_out fuel acc s)
  show ?case by (rule exI[of _ "[]"]) simp
qed


lemma runWorkflow_eq:
  "runWorkflow e workflow options s =
     (settle ''Error running workflow''
        (run_reply e (trace s) workflow (workflow_payload options (activeSessionId s))),
      exchange e (POST_run workflow (workflow_payload options (activeSessionId s))
        (run_reply e (trace s) workflow (workflow_payload options (activeSessionId s)))) s)"
  by (simp add: runWorkflow_def Let_def)

text \<open>A call of \<^verbatim>\<open>runWorkflowAndWait\<close>: the submission, then the loop from the state it leaves.\<close>

lemma runWorkflowAndWait_cases:
  assumes "runWorkflowAndWait e fuel workflow options s = (out, s')"
  obtains (refused) p f where
      "trace s' = trace s @ [POST_run workflow p (Inl f)]"
      "activeSessionId s' = activeSessionId s"
      "out = Some (Inl (request_failed ''Error running workflow'' f))"
  | (submitted) p sub s1 where
      "trace s1 = trace s @ [POST_run workflow p (Inr sub)]"
      "activeSessionId s1 = activeSessionId s"
      "runWorkflowAndWait_loop e fuel (submitted_runId sub)
         (nullish (returnIntermediateResults options) False)
         (nullish (onProgress options) (\<lambda>results. None))
         (nullish (run_pollingInterval options) 5000) (nullish (run_timeout options) 300000)
         (Date_now s1) [] s1 = (out, s')"
proof -
  let ?o = "\<lparr>args = args options, files = files options, useStates = useStates options,
             preserveState = preserveState options, browserSessionId = browserSessionId options,
             noIntelligence = noIntelligence options, recordSession = recordSession options,
             skipGotoUrlInstruction = skipGotoUrlInstruction options\<rparr>"
  let ?p = "workflow_payload ?o (activeSessionId s)"
  show thesis
  proof (cases "run_reply e (trace s) workflow ?p")
    case (Inl f)
    with assms have "trace s' = trace s @ [POST_run workflow ?p (Inl f)]"
      "activeSessionId s' = activeSessionId s"
      "out = Some (Inl (request_failed ''Error running workflow'' f))"
      by (auto simp: runWorkflowAndWait_def runWorkflow_eq settle_def Let_def)
    then show ?thesis by (rule refused)
  next
    case (Inr sub)
    let ?s1 = "exchange e (POST_run workflow ?p (Inr sub)) s"
    from Inr assms have "runWorkflowAndWait_loop e fuel (submitted_runId sub)
         (nullish (returnIntermediateResults options) False)
         (nullish (onProgress options) (\<lambda>results. None))
         (nullish (run_pollingInterval options) 5000) (nullish (run_timeout options) 300000)
         (Date_now ?s1) [] ?s1 = (out, s')"
      by (auto simp: runWorkflowAndWait_def runWorkflow_eq settle_def Let_def)
    moreover have "trace ?s1 = trace s @ [POST_run workflow ?p (Inr sub)]"
      "activeSessionId ?s1 = activeSessionId s" by simp_all
    ultimately show ?thesis using submitted by blast
  qed
qed

lemmas run_loop_defs = runWorkflowAndWait_def runWorkflow_def workflow_payload_def field_def
  injected_session_def nullish_def getWorkflowResults_def settle_def exchange_def sleep_def
  timer_delay_def
  Date_now_def scripted_def fetches_def snapshot_def constructor_def TERMINAL_STATUSES_def
  Let_def events_since_def

section \<open>Claims on \<^verbatim>\<open>runWorkflowAndWait\<close> and on timeouts that leave no time\<close>



text \<open>
  C9. With a timeout that is zero or negative, \<^verbatim>\<open>waitUntilState\<close> fails with its timeout
  exception in the state the \<^verbatim>\<open>minWaitTime\<close> sleep (if any) leaves, with no fetch, whatever
  the service would have answered; and \<^verbatim>\<open>runWorkflowAndWait\<close> makes the submission and
  nothing else, no fetch, and fails with its timeout exception when the submission was
  accepted (with the submission's own failure when it was refused).
\<close>

theorem nonpositive_timeout_fetches_nothing:
  "(nullish (timeout options) 60000 \<le> 0 \<longrightarrow>
      waitUntilState e fuel run target options s =
        (Some (Inl (wait_timed_out e target (nullish (allInstructionsExecuted options) False)
                      (nullish (timeout options) 60000))),
         minWait_elapsed e options s) \<and>
      fetches (events_since s (minWait_elapsed e options s)) = 0) \<and>
   (nullish (run_timeout roptions) 300000 \<le> 0 \<longrightarrow>
      (\<exists>p reply.
         events_since s (snd (runWorkflowAndWait e fuel workflow roptions s)) =
           [POST_run workflow p reply] \<and>
         fetches (events_since s (snd (runWorkflowAndWait e fuel workflow roptions s))) = 0 \<and>
         fst (runWorkflowAndWait e fuel workflow roptions s) =
           Some (Inl (case reply of
                        Inl f \<Rightarrow> request_failed ''Error running workflow'' f
                      | Inr submitted \<Rightarrow> run_timed_out e (nullish (run_timeout roptions) 300000)))))"
proof (intro conjI impI)
  assume t: "nullish (timeout options) 60000 \<le> 0"
  let ?s0 = "minWait_elapsed e options s"
  from t have "\<not> Date_now ?s0 - Date_now ?s0 < nullish (timeout options) 60000" by simp
  then show "waitUntilState e fuel run target options s =
        (Some (Inl (wait_timed_out e target (nullish (allInstructionsExecuted options) False)
                      (nullish (timeout options) 60000))), ?s0)"
    unfolding waitUntilState_eq by (cases fuel) simp_all
  show "fetches (events_since s ?s0) = 0"
    by (simp add: minWait_elapsed_trace events_since_def fetches_def)
next
  assume t: "nullish (run_timeout roptions) 300000 \<le> 0"
  obtain out s' where run: "runWorkflowAndWait e fuel workflow roptions s = (out, s')"
    by (cases "runWorkflowAndWait e fuel workflow roptions s")
  from run show "\<exists>p reply.
         events_since s (snd (runWorkflowAndWait e fuel workflow roptions s)) =
           [POST_run workflow p reply] \<and>
         fetches (events_since s (snd (runWorkflowAndWait e fuel workflow roptions s))) = 0 \<and>
         fst (runWorkflowAndWait e fuel workflow roptions s) =
           Some (Inl (case reply of
                        Inl f \<Rightarrow> request_failed ''Error running workflow'' f
                      | Inr submitted \<Rightarrow> run_timed_out e (nullish (run_timeout roptions) 300000)))"
  proof (cases rule: runWorkflowAndWait_cases)
    case (refused p f)
    then have "events_since s s' = [POST_run workflow p (Inl f)]"
      by (simp add: events_since_def)
    with refused(3) run show ?thesis by (auto simp: fetches_def)
  next
    case (submitted p sub s1)
    from t have "\<not> Date_now s1 - Date_now s1 < nullish (run_timeout roptions) 300000" by simp
    with submitted(3) have "out = Some (Inl (run_timed_out e (nullish (run_timeout roptions) 300000)))"
      and "s' = s1" by (cases fuel; simp)+
    moreover from this submitted(1) have "events_since s s' = [POST_run workflow p (Inr sub)]"
      by (simp add: events_since_def)
    ultimately show ?thesis using run by (auto simp: fetches_def)
  qed
qed

theorem nonpositive_timeout_fetches_nothing_witness:
  "waitUntilState (scripted [snapshot ''C'' None] ''0'') 3 ''r1'' ''C''
     \<lparr>allInstructionsExecuted = None, minWaitTime = None, pollingInterval = None, timeout = Some 0\<rparr>
     (constructor 0 []) =
     (Some (Inl (WitriumClientException
        (''Workflow run did not reach status '' @ quoted ''completed'' @ '' within 0 seconds''))),
      constructor 0 []) \<and>
   events_since (constructor 0 [])
     (snd (runWorkflowAndWait (scripted [snapshot ''C'' None] ''0'') 3 ''w1''
        \<lparr>args = None, files = None, useStates = None, preserveState = None,
         browserSessionId = None, noIntelligence = None, recordSession = None,
         skipGotoUrlInstruction = None, run_pollingInterval = None, run_timeout = Some 0,
         returnIntermediateResults = None, onProgress = None\<rparr> (constructor 0 []))) =
     [POST_run ''w1'' [] (Inr \<lparr>submitted_workflowId = ''w1'', submitted_runId = ''r1'',
                              submitted_status = ''P''\<rparr>)] \<and>
   fst (runWorkflowAndWait (scripted [snapshot ''C'' None] ''0'') 3 ''w1''
        \<lparr>args = None, files = None, useStates = None, preserveState = None,
         browserSessionId = None, noIntelligence = None, recordSession = None,
         skipGotoUrlInstruction = None, run_pollingInterval = None, run_timeout = Some 0,
         returnIntermediateResults = None, onProgress = None\<rparr> (constructor 0 [])) =
     Some (Inl (WitriumClientException ''Workflow execution timed out after 0 seconds''))"
proof -
  let ?e = "scripted [snapshot ''C'' None] ''0''"
  let ?o = "\<lparr>allInstructionsExecuted = None, minWaitTime = None, pollingInterval = None, timeout = Some 0\<rparr>"
  let ?r = "\<lparr>args = None, files = None, useStates = None, preserveState = None,
         browserSessionId = None, noIntelligence = None, recordSession = None,
         skipGotoUrlInstruction = None, run_pollingInterval = None, run_timeout = Some 0,
         returnIntermediateResults = None, onProgress = None\<rparr>"
  let ?s = "constructor 0 []"
  have a: "nullish (timeout ?o) 60000 \<le> 0" and b: "nullish (run_timeout ?r) 300000 \<le> 0"
    by (simp_all add: nullish_def)
  from nonpositive_timeout_fetches_nothing[of ?o ?e 3 "''r1''" "''C''" ?s ?r "''w1''"] a b
  have w: "waitUntilState ?e 3 ''r1'' ''C'' ?o ?s =
        (Some (Inl (wait_timed_out ?e ''C'' (nullish (allInstructionsExecuted ?o) False)
                      (nullish (timeout ?o) 60000))), minWait_elapsed ?e ?o ?s)"
    and r: "\<exists>p reply.
         events_since ?s (snd (runWorkflowAndWait ?e 3 ''w1'' ?r ?s)) = [POST_run ''w1'' p reply] \<and>
         fst (runWorkflowAndWait ?e 3 ''w1'' ?r ?s) =
           Some (Inl (case reply of
                        Inl f \<Rightarrow> request_failed ''Error running workflow'' f
                      | Inr submitted \<Rightarrow> run_timed_out ?e (nullish (run_timeout ?r) 300000)))"
    by blast+
  have ev: "events_since ?s (snd (runWorkflowAndWait ?e 3 ''w1'' ?r ?s)) =
     [POST_run ''w1'' [] (Inr \<lparr>submitted_workflowId = ''w1'', submitted_runId = ''r1'',
                              submitted_status = ''P''\<rparr>)]"
    by (simp add: run_loop_defs eval_nat_numeral)
  with r have "fst (runWorkflowAndWait ?e 3 ''w1'' ?r ?s) =
      Some (Inl (run_timed_out ?e (nullish (run_timeout ?r) 300000)))" by auto
  then have out: "fst (runWorkflowAndWait ?e 3 ''w1'' ?r ?s) =
      Some (Inl (WitriumClientException ''Workflow execution timed out after 0 seconds''))"
    by (simp add: run_timed_out_def scripted_def)
  from w have "waitUntilState ?e 3 ''r1'' ''C'' ?o ?s =
     (Some (Inl (WitriumClientException
        (''Workflow run did not reach status '' @ quoted ''completed'' @ '' within 0 seconds''))), ?s)"
    by (simp add: wait_timed_out_def minWait_elapsed_def nullish_def getStatusName_known scripted_def
                  Let_def)
  with ev out show ?thesis by blast
qed

section \<open>Claims on the session scope and on the active session\<close>

lemma createBrowserSession_eq:
  "createBrowserSession e options s =
     (settle ''Error creating browser session'' (create_reply e (trace s) (session_payload options)),
      exchange e (POST_session (session_payload options)
        (create_reply e (trace s) (session_payload options))) s)"
  by (simp add: createBrowserSession_def Let_def)

lemma closeBrowserSession_eq:
  "closeBrowserSession e sessionUuid force s =
     (settle ''Error closing browser session'' (close_reply e (trace s) sessionUuid force),
      exchange e (DELETE_session sessionUuid force (close_reply e (trace s) sessionUuid force)) s)"
  by (simp add: closeBrowserSession_def Let_def)

lemmas session_defs = withBrowserSession_def createBrowserSession_def closeBrowserSession_def
  session_payload_def field_def settle_def exchange_def scripted_def session_def constructor_def
  sessionId_def Let_def

text \<open>
  C4. When the session has been created and the callback, called with the session's id
  in a state where that id is the active session, settles with any outcome (a value or
  something thrown), \<^verbatim>\<open>withBrowserSession\<close> settles with that same outcome; the active
  session is then what it was before the call, and the last event is the forced close of
  the created session, whatever the service replied to it (a failure is swallowed).
  Second, however a call of \<^verbatim>\<open>withBrowserSession\<close> settles, the active session afterwards
  is the one before the call: a call made inside an outer callback leaves the outer
  session active when it returns. The witness runs one call inside another.
\<close>

theorem withBrowserSession_scope:
  "(\<forall>session s1 outcome s3.
      createBrowserSession e options s = (Inr session, s1) \<and>
      callback (uuid session) (s1\<lparr>activeSessionId := Some (uuid session)\<rparr>) = Some (outcome, s3) \<longrightarrow>
      sessionId (s1\<lparr>activeSessionId := Some (uuid session)\<rparr>) = Some (uuid session) \<and>
      (\<exists>reply s'. withBrowserSession e callback options s = Some (outcome, s') \<and>
         sessionId s' = sessionId s \<and>
         trace s' = trace s3 @ [DELETE_session (uuid session) True reply])) \<and>
   (\<forall>out s'. withBrowserSession e callback options s = Some (out, s') \<longrightarrow>
      sessionId s' = sessionId s)"
proof (intro conjI allI impI)
  fix session s1 outcome s3
  assume h: "createBrowserSession e options s = (Inr session, s1) \<and>
      callback (uuid session) (s1\<lparr>activeSessionId := Some (uuid session)\<rparr>) = Some (outcome, s3)"
  show "sessionId (s1\<lparr>activeSessionId := Some (uuid session)\<rparr>) = Some (uuid session)"
    by (simp add: sessionId_def)
  from h have s1: "activeSessionId s1 = activeSessionId s"
    by (auto simp: createBrowserSession_eq)
  let ?s4 = "s3\<lparr>activeSessionId := activeSessionId s1\<rparr>"
  let ?reply = "close_reply e (trace ?s4) (uuid session) True"
  let ?s5 = "exchange e (DELETE_session (uuid session) True ?reply) ?s4"
  from h have "withBrowserSession e callback options s = Some (outcome, ?s5)"
    by (simp add: withBrowserSession_def closeBrowserSession_eq Let_def)
  moreover have "sessionId ?s5 = sessionId s" using s1 by (simp add: sessionId_def)
  moreover have "trace ?s5 = trace s3 @ [DELETE_session (uuid session) True ?reply]" by simp
  ultimately show "\<exists>reply s'. withBrowserSession e callback options s = Some (outcome, s') \<and>
         sessionId s' = sessionId s \<and>
         trace s' = trace s3 @ [DELETE_session (uuid session) True reply]" by blast
next
  fix out s'
  assume run: "withBrowserSession e callback options s = Some (out, s')"
  show "sessionId s' = sessionId s"
  proof (cases "create_reply e (trace s) (session_payload options)")
    case (Inl f)
    with run show ?thesis
      by (auto simp: withBrowserSession_def createBrowserSession_eq settle_def sessionId_def)
  next
    case (Inr session)
    with run show ?thesis
      by (auto simp: withBrowserSession_def createBrowserSession_eq closeBrowserSession_eq
            settle_def sessionId_def Let_def split: option.splits prod.splits)
  qed
qed

theorem withBrowserSession_scope_witness:
  "(\<exists>s'. withBrowserSession (scripted [] ''60'')
      (\<lambda>outer st.
         case withBrowserSession (scripted [] ''60'')
                (\<lambda>inner st. Some (Inl (Thrown (inner @ '' sees '' @ the (sessionId st)))
                                        :: exception + unit, st))
                \<lparr>provider = None, useProxy = None, proxyCountry = None, proxyCity = None,
                 session_useStates = None\<rparr> st of
           None \<Rightarrow> None
         | Some (thrown, st') \<Rightarrow> Some (Inr (outer, thrown, sessionId st'), st'))
      \<lparr>provider = None, useProxy = None, proxyCountry = None, proxyCity = None,
       session_useStates = None\<rparr>
      (constructor 0 []) =
     Some (Inr (''s'', Inl (Thrown ''ss sees ss''), Some ''s''), s') \<and>
     sessionId s' = None \<and>
     trace s' =
       [POST_session [] (Inr (session ''s'')), POST_session [] (Inr (session ''ss'')),
        DELETE_session ''ss'' True (Inl (''Session is busy'', ''409''))] @
       [DELETE_session ''s'' True (Inl (''Session is busy'', ''409''))])"
proof -
  let ?e = "scripted [] ''60''"
  let ?o = "\<lparr>provider = None, useProxy = None, proxyCountry = None, proxyCity = None,
             session_useStates = None\<rparr>"
  let ?inner = "\<lambda>inner st. Some (Inl (Thrown (inner @ '' sees '' @ the (sessionId st))) :: exception + unit, st)"
  let ?outer = "\<lambda>outer st.
         case withBrowserSession ?e ?inner ?o st of
           None \<Rightarrow> None
         | Some (thrown, st') \<Rightarrow> Some (Inr (outer, thrown, sessionId st') :: exception + _, st')"
  let ?s = "constructor 0 []"
  let ?s1 = "\<lparr>activeSessionId = None, clock = 10,
              trace = [POST_session [] (Inr (session ''s''))]\<rparr>"
  let ?s3 = "\<lparr>activeSessionId = Some ''s'', clock = 30,
              trace = [POST_session [] (Inr (session ''s'')), POST_session [] (Inr (session ''ss'')),
                       DELETE_session ''ss'' True (Inl (''Session is busy'', ''409''))]\<rparr>"
  have created: "createBrowserSession ?e ?o ?s = (Inr (session ''s''), ?s1)"
    by (simp add: session_defs)
  have settled: "?outer (uuid (session ''s'')) (?s1\<lparr>activeSessionId := Some (uuid (session ''s''))\<rparr>) =
      Some (Inr (''s'', Inl (Thrown ''ss sees ss''), Some ''s''), ?s3)"
    by (simp add: session_defs)
  from withBrowserSession_scope[of ?e ?o ?s ?outer] created settled
  obtain reply s' where
    r: "withBrowserSession ?e ?outer ?o ?s = Some (Inr (''s'', Inl (Thrown ''ss sees ss''), Some ''s''), s')"
    and a: "sessionId s' = sessionId ?s"
    by blast
  have n: "sessionId ?s = None" by (simp add: sessionId_def constructor_def)
  have "trace (snd (the (withBrowserSession ?e ?outer ?o ?s))) =
       [POST_session [] (Inr (session ''s'')), POST_session [] (Inr (session ''ss'')),
        DELETE_session ''ss'' True (Inl (''Session is busy'', ''409''))] @
       [DELETE_session ''s'' True (Inl (''Session is busy'', ''409''))]"
    by (simp add: session_defs)
  with r have tr: "trace s' =
       [POST_session [] (Inr (session ''s'')), POST_session [] (Inr (session ''ss'')),
        DELETE_session ''ss'' True (Inl (''Session is busy'', ''409''))] @
       [DELETE_session ''s'' True (Inl (''Session is busy'', ''409''))]"
    by (simp only: option.sel snd_conv)
  from a n have "sessionId s' = None" by (simp only:)
  with r tr show ?thesis by blast
qed

lemma map_of_field:
  "map_of (field key enc v @ rest) k =
     (if k = key then (case v of Some x \<Rightarrow> Some (enc x) | None \<Rightarrow> map_of rest k)
      else map_of rest k)"
  by (simp add: field_def split: option.splits)

lemma map_of_field_last:
  "map_of (field key enc v) k = (if k = key then map_option enc v else None)"
  by (simp add: field_def split: option.splits)

lemma distinct_field: "distinct (map fst (field key enc v))"
  by (simp add: field_def split: option.splits)

lemma field_disjoint:
  "key \<noteq> key' \<Longrightarrow> fst ` set (field key enc v) \<inter> fst ` set (field key' enc' v') = {}"
  by (cases v; cases v') (simp_all add: field_def)

lemma workflow_payload_distinct: "distinct (map fst (workflow_payload options active))"
  by (simp add: workflow_payload_def distinct_field field_disjoint image_Un Int_Un_distrib
        Int_Un_distrib2)

lemma talent_payload_distinct: "distinct (map fst (talent_payload options active))"
  by (simp add: talent_payload_def distinct_field field_disjoint image_Un Int_Un_distrib
        Int_Un_distrib2)

text \<open>
  C5. \<^verbatim>\<open>runWorkflow\<close> and \<^verbatim>\<open>runTalent\<close> send one request, whose body is the payload built
  from the options and the active session. In that payload no key occurs twice, and
  \<^verbatim>\<open>browser_session_id\<close> is the explicit \<^verbatim>\<open>browserSessionId\<close> of the options when there is
  one (whatever the active session), else the active session when there is one; the key
  is absent exactly when both are missing.
\<close>

theorem browser_session_id_injected:
  "(\<exists>reply. events_since s (snd (runWorkflow e workflow options s)) =
      [POST_run workflow (workflow_payload options (sessionId s)) reply]) \<and>
   (\<exists>reply. events_since s (snd (runTalent e talent toptions s)) =
      [POST_talent talent (talent_payload toptions (sessionId s)) reply]) \<and>
   map_of (workflow_payload options active) ''browser_session_id'' =
     (case browserSessionId options of
        Some explicit \<Rightarrow> Some (JStr explicit)
      | None \<Rightarrow> (case active of Some a \<Rightarrow> Some (JStr a) | None \<Rightarrow> None)) \<and>
   map_of (talent_payload toptions active) ''browser_session_id'' =
     (case browserSessionId toptions of
        Some explicit \<Rightarrow> Some (JStr explicit)
      | None \<Rightarrow> (case active of Some a \<Rightarrow> Some (JStr a) | None \<Rightarrow> None)) \<and>
   distinct (map fst (workflow_payload options active)) \<and>
   distinct (map fst (talent_payload toptions active)) \<and>
   (''browser_session_id'' \<in> fst ` set (workflow_payload options active) \<longleftrightarrow>
      browserSessionId options \<noteq> None \<or> active \<noteq> None) \<and>
   (''browser_session_id'' \<in> fst ` set (talent_payload toptions active) \<longleftrightarrow>
      browserSessionId toptions \<noteq> None \<or> active \<noteq> None)"
proof -
  have a: "\<exists>reply. events_since s (snd (runWorkflow e workflow options s)) =
      [POST_run workflow (workflow_payload options (sessionId s)) reply]"
    by (simp add: runWorkflow_eq events_since_def sessionId_def)
  have b: "\<exists>reply. events_since s (snd (runTalent e talent toptions s)) =
      [POST_talent talent (talent_payload toptions (sessionId s)) reply]"
    by (simp add: runTalent_def Let_def events_since_def sessionId_def)
  have c: "map_of (workflow_payload options active) ''browser_session_id'' =
     (case browserSessionId options of
        Some explicit \<Rightarrow> Some (JStr explicit)
      | None \<Rightarrow> (case active of Some a \<Rightarrow> Some (JStr a) | None \<Rightarrow> None))"
    by (simp add: workflow_payload_def map_of_field map_of_field_last injected_session_def
             del: map_of_append split: option.splits)
  have d: "map_of (talent_payload toptions active) ''browser_session_id'' =
     (case browserSessionId toptions of
        Some explicit \<Rightarrow> Some (JStr explicit)
      | None \<Rightarrow> (case active of Some a \<Rightarrow> Some (JStr a) | None \<Rightarrow> None))"
    by (simp add: talent_payload_def map_of_field map_of_field_last injected_session_def
             del: map_of_append split: option.splits)
  have e: "distinct (map fst (workflow_payload options active))"
    by (rule workflow_payload_distinct)
  have f: "distinct (map fst (talent_payload toptions active))"
    by (rule talent_payload_distinct)
  have key: "k \<in> fst ` set p \<longleftrightarrow> map_of p k \<noteq> None" for k :: string and p :: payload
    by (simp add: map_of_eq_None_iff)
  have g: "''browser_session_id'' \<in> fst ` set (workflow_payload options active) \<longleftrightarrow>
      browserSessionId options \<noteq> None \<or> active \<noteq> None"
    unfolding key c by (simp split: option.splits)
  have h: "''browser_session_id'' \<in> fst ` set (talent_payload toptions active) \<longleftrightarrow>
      browserSessionId toptions \<noteq> None \<or> active \<noteq> None"
    unfolding key d by (simp split: option.splits)
  from a b c d e f g h show ?thesis by blast
qed

theorem browser_session_id_injected_witness:
  "map_of (workflow_payload
      \<lparr>args = None, files = None, useStates = None, preserveState = None,
       browserSessionId = Some ''explicit'', noIntelligence = None, recordSession = None,
       skipGotoUrlInstruction = None\<rparr> (Some ''context'')) ''browser_session_id'' =
     Some (JStr ''explicit'') \<and>
   map_of (talent_payload
      \<lparr>args = None, files = None, useStates = None, preserveState = None,
       browserSessionId = None\<rparr> (Some ''context'')) ''browser_session_id'' =
     Some (JStr ''context'') \<and>
   ''browser_session_id'' \<in> fst ` set (workflow_payload
      \<lparr>args = None, files = None, useStates = None, preserveState = None,
       browserSessionId = Some ''explicit'', noIntelligence = None, recordSession = None,
       skipGotoUrlInstruction = None\<rparr> (Some ''context'')) \<and>
   ''browser_session_id'' \<notin> fst ` set (talent_payload
      \<lparr>args = None, files = None, useStates = None, preserveState = None,
       browserSessionId = None\<rparr> None)"
proof -
  let ?w = "\<lparr>args = None, files = None, useStates = None, preserveState = None,
       browserSessionId = Some ''explicit'', noIntelligence = None, recordSession = None,
       skipGotoUrlInstruction = None\<rparr>"
  let ?t = "\<lparr>args = None, files = None, useStates = None, preserveState = None,
       browserSessionId = None\<rparr>"
  have a: "browserSessionId ?w \<noteq> None \<or> Some ''context'' \<noteq> (None :: string option)" by simp
  from browser_session_id_injected[of _ _ _ ?w _ ?t "Some ''context''"] a
  have "map_of (workflow_payload ?w (Some ''context'')) ''browser_session_id'' = Some (JStr ''explicit'')"
    and "map_of (talent_payload ?t (Some ''context'')) ''browser_session_id'' = Some (JStr ''context'')"
    and "''browser_session_id'' \<in> fst ` set (workflow_payload ?w (Some ''context''))"
    by simp_all
  moreover from browser_session_id_injected[of _ _ _ ?w _ ?t None]
  have "''browser_session_id'' \<notin> fst ` set (talent_payload ?t None)"
    by simp
  ultimately show ?thesis by blast
qed

lemma waitUntilState_active:
  "activeSessionId (snd (waitUntilState e fuel run target options s)) = activeSessionId s"
proof -
  obtain out s' where run: "waitUntilState e fuel run target options s = (out, s')"
    by (cases "waitUntilState e fuel run target options s")
  from waitUntilState_loop_active[OF run[unfolded waitUntilState_eq]] run
  show ?thesis by (simp add: minWait_elapsed_def Let_def)
qed

lemma runWorkflowAndWait_active:
  "activeSessionId (snd (runWorkflowAndWait e fuel workflow options s)) = activeSessionId s"
proof -
  obtain out s' where run: "runWorkflowAndWait e fuel workflow options s = (out, s')"
    by (cases "runWorkflowAndWait e fuel workflow options s")
  then have "activeSessionId s' = activeSessionId s"
  proof (cases rule: runWorkflowAndWait_cases)
    case (refused p f)
    then show ?thesis by simp
  next
    case (submitted p sub s1)
    from runWorkflowAndWait_loop_trace[OF submitted(3)] submitted(2) show ?thesis by auto
  qed
  with run show ?thesis by simp
qed

lemma invoke_active: "activeSessionId (invoke e fuel c s) = activeSessionId s"
  by (cases c)
     (simp_all add: runWorkflow_eq getWorkflowResults_eq runWorkflowAndWait_active
        waitUntilState_active cancelRun_def runTalent_def createBrowserSession_eq
        listBrowserSessions_def getBrowserSession_def closeBrowserSession_eq Let_def)

lemma fold_invoke_active: "activeSessionId (fold (invoke e fuel) cs s) = activeSessionId s"
  by (induction cs arbitrary: s) (simp_all add: invoke_active)

text \<open>
  C10. Every public operation other than \<^verbatim>\<open>withBrowserSession\<close> leaves the active session
  as it was, whatever its outcome, and so does every sequence of them; a client just
  constructed has none, and still has none after any such sequence.
\<close>

theorem active_session_only_set_in_scope:
  "sessionId (invoke e fuel c s) = sessionId s \<and>
   sessionId (fold (invoke e fuel) cs s) = sessionId s \<and>
   sessionId (constructor t h) = None \<and>
   sessionId (fold (invoke e fuel) cs (constructor t h)) = None"
  by (simp add: sessionId_def invoke_active fold_invoke_active constructor_def)

theorem active_session_only_set_in_scope_witness:
  "sessionId (fold (invoke (scripted [snapshot ''C'' None] ''60'') 3)
     [Call_runWorkflow ''w1'' \<lparr>args = None, files = None, useStates = None, preserveState = None,
        browserSessionId = Some ''explicit'', noIntelligence = None, recordSession = None,
        skipGotoUrlInstruction = None\<rparr>,
      Call_waitUntilState ''r1'' ''C'' \<lparr>allInstructionsExecuted = None, minWaitTime = None,
        pollingInterval = None, timeout = None\<rparr>,
      Call_createBrowserSession \<lparr>provider = None, useProxy = None, proxyCountry = None,
        proxyCity = None, session_useStates = None\<rparr>,
      Call_closeBrowserSession ''s'' True, Call_cancelRun ''r1'']
     (constructor 0 [])) = None"
proof -
  from active_session_only_set_in_scope
         [where e = "scripted [snapshot ''C'' None] ''60''" and fuel = 3 and t = 0 and h = "[]"]
  show ?thesis by blast
qed

section \<open>Claims on the field names at the wire\<close>






























end
